theory Spec2Isabelle
  imports Main
begin

section \<open>Python and numpy primitives used by the environment\<close>

text \<open>
  The exceptions that \<^verbatim>\<open>griduniverse_env.py\<close> raises itself or lets escape from list
  and array indexing.  Every \<^verbatim>\<open>raise\<close> of the source is an \<open>Inl\<close> branch of the model.
\<close>

datatype error = ValueError | IndexError

text \<open>
  Indexing of a Python list or of a one-dimensional numpy array of length \<open>n\<close> with an
  integer: indices \<open>0 .. n - 1\<close> are taken as they are, indices \<open>-n .. -1\<close> count from the
  end, everything else raises \<^verbatim>\<open>IndexError\<close>.
\<close>

definition py_index :: "nat \<Rightarrow> int \<Rightarrow> error + nat" where
  "py_index n i =
     (if 0 \<le> i \<and> i < int n then Inr (nat i)
      else if - int n \<le> i \<and> i < 0 then Inr (nat (i + int n))
      else Inl IndexError)"

definition np_get :: "'a list \<Rightarrow> int \<Rightarrow> error + 'a" where
  "np_get xs i = (case py_index (length xs) i of Inl err \<Rightarrow> Inl err | Inr k \<Rightarrow> Inr (xs ! k))"

definition np_set :: "'a list \<Rightarrow> int \<Rightarrow> 'a \<Rightarrow> error + 'a list" where
  "np_set xs i v =
     (case py_index (length xs) i of Inl err \<Rightarrow> Inl err | Inr k \<Rightarrow> Inr (xs[k := v]))"

text \<open>\<^verbatim>\<open>xs.index(x)\<close>: position of the first occurrence, \<^verbatim>\<open>ValueError\<close> when absent.\<close>

definition py_list_index :: "int list \<Rightarrow> int \<Rightarrow> error + nat" where
  "py_list_index xs x =
     (if x \<in> set xs then Inr (length (takeWhile (\<lambda>y. y \<noteq> x) xs)) else Inl ValueError)"

text \<open>
  \<^verbatim>\<open>random.choice(xs)\<close>: \<^verbatim>\<open>IndexError\<close> on an empty list, otherwise some element of the
  list.  The draw of the random source is the explicit argument \<open>rnd\<close>.
\<close>

definition random_choice :: "int list \<Rightarrow> nat \<Rightarrow> error + int" where
  "random_choice xs rnd = (if xs = [] then Inl IndexError else Inr (xs ! (rnd mod length xs)))"

text \<open>\<^verbatim>\<open>len(set(xs))\<close> and \<^verbatim>\<open>len(set(xs) & set(ys))\<close>.\<close>

definition len_set :: "int list \<Rightarrow> nat" where
  "len_set xs = length (remdups xs)"

definition len_inter :: "int list \<Rightarrow> int list \<Rightarrow> nat" where
  "len_inter xs ys = length (filter (\<lambda>x. x \<in> set ys) (remdups xs))"

section \<open>The environment object\<close>

text \<open>
  The module \<^verbatim>\<open>core.envs.config\<close> is not part of the sources at hand; the six reward
  constants the constructor reads from \<^verbatim>\<open>config.default_rewards\<close> are a parameter.
\<close>

record rewards =
  cfg_LEMON_REWARD :: int
  cfg_APPLE_REWARD :: int
  cfg_MELON_REWARD :: int
  cfg_LAVA_REWARD :: int
  cfg_TERMINAL_GOAL_REWARD :: int
  cfg_MOVEMENT_REWARD :: int

text \<open>
  The attributes of \<^verbatim>\<open>GridUniverseEnv\<close> that the transition, reward and life-cycle code
  reads or writes.  \<open>wall_grid\<close> is the numpy array of zeros and ones, \<open>world\<close> the array
  of \<open>(x, y)\<close> coordinates; the viewer is absent (\<^verbatim>\<open>self.viewer = None\<close>), as it is
  unless a graphic render was requested.
\<close>

record env =
  x_max :: int
  y_max :: int
  world :: "(int \<times> int) list"
  initial_states :: "int list"
  initial_state :: int
  current_state :: int
  previous_state :: int
  goal_states :: "int list"
  lava_states :: "int list"
  lemons :: "int list"
  apples :: "int list"
  melons :: "int list"
  current_lemons :: "int list"
  current_apples :: "int list"
  current_melons :: "int list"
  wall_indices :: "int list"
  wall_grid :: "int list"
  LEMON_REWARD :: int
  APPLE_REWARD :: int
  MELON_REWARD :: int
  LAVA_REWARD :: int
  TERMINAL_GOAL_REWARD :: int
  MOVEMENT_REWARD :: int
  reward_matrix :: "int list"
  num_previous_states_to_store :: nat
  last_n_states :: "(int \<times> int) list"
  done_flag :: bool

text \<open>\<^verbatim>\<open>self.world.size\<close>.\<close>

definition world_size :: "env \<Rightarrow> int" where
  "world_size e = int (length (world e))"

subsection \<open>World layout\<close>

text \<open>
  \<^verbatim>\<open>_generate_world\<close>: the pairs \<open>(x, y)\<close> with \<open>y\<close> in the outer and \<open>x\<close> in the inner
  loop.  \<^verbatim>\<open>np.nditer\<close> refuses a zero-sized operand with \<^verbatim>\<open>ValueError\<close>, so a width or
  height that is not positive raises.
\<close>

definition generate_world :: "int \<Rightarrow> int \<Rightarrow> error + (int \<times> int) list" where
  "generate_world xm ym =
     (if ym \<le> 0 \<or> xm \<le> 0 then Inl ValueError
      else Inr (concat (map (\<lambda>y. map (\<lambda>x. (int x, int y)) [0..<nat xm]) [0..<nat ym])))"

subsection \<open>Transition function\<close>

text \<open>The four closures of \<^verbatim>\<open>self.action_state_to_next_state\<close>, in list order.\<close>

definition action_up :: "env \<Rightarrow> int \<Rightarrow> error + int" where
  "action_up e s =
     (case np_get (world e) s of Inl err \<Rightarrow> Inl err
      | Inr c \<Rightarrow> Inr (if snd c > 0 then s - x_max e else s))"

definition action_right :: "env \<Rightarrow> int \<Rightarrow> error + int" where
  "action_right e s =
     (case np_get (world e) s of Inl err \<Rightarrow> Inl err
      | Inr c \<Rightarrow> Inr (if fst c < x_max e - 1 then s + 1 else s))"

definition action_down :: "env \<Rightarrow> int \<Rightarrow> error + int" where
  "action_down e s =
     (case np_get (world e) s of Inl err \<Rightarrow> Inl err
      | Inr c \<Rightarrow> Inr (if snd c < y_max e - 1 then s + x_max e else s))"

definition action_left :: "env \<Rightarrow> int \<Rightarrow> error + int" where
  "action_left e s =
     (case np_get (world e) s of Inl err \<Rightarrow> Inl err
      | Inr c \<Rightarrow> Inr (if fst c > 0 then s - 1 else s))"

text \<open>
  \<^verbatim>\<open>self.action_state_to_next_state[action]\<close>: a Python list of four elements indexed by
  the action, so the actions \<open>-4 .. -1\<close> select an element as well.
\<close>

definition action_state_to_next_state :: "env \<Rightarrow> int \<Rightarrow> error + (int \<Rightarrow> error + int)" where
  "action_state_to_next_state e action =
     np_get [action_up e, action_right e, action_down e, action_left e] action"

definition is_wall :: "env \<Rightarrow> int \<Rightarrow> error + bool" where
  "is_wall e state =
     (case np_get (wall_grid e) state of Inl err \<Rightarrow> Inl err | Inr v \<Rightarrow> Inr (v = 1))"

definition is_lava :: "env \<Rightarrow> int \<Rightarrow> bool" where
  "is_lava e state = (state \<in> set (lava_states e))"

definition is_terminal_goal :: "env \<Rightarrow> int \<Rightarrow> bool" where
  "is_terminal_goal e state = (state \<in> set (goal_states e))"

definition is_terminal :: "env \<Rightarrow> int \<Rightarrow> bool" where
  "is_terminal e state = (is_lava e state \<or> is_terminal_goal e state)"

text \<open>
  \<^verbatim>\<open>reward_function\<close>.  With \<open>collect\<close> the reward is read first; a state in one of the
  current fruit lists is then looked up in the template list (\<^verbatim>\<open>.index\<close>), removed from
  the current list (\<^verbatim>\<open>.remove\<close> deletes the first occurrence) and its entry of the reward
  matrix is set to the movement reward.  The result is the changed object and the reward.
\<close>

definition collect_fruit :: "env \<Rightarrow> int \<Rightarrow> error + env" where
  "collect_fruit e next_state =
     (if next_state \<in> set (current_lemons e) then
        (case py_list_index (lemons e) next_state of Inl err \<Rightarrow> Inl err
         | Inr _ \<Rightarrow> Inr (e\<lparr>current_lemons := remove1 next_state (current_lemons e)\<rparr>))
      else if next_state \<in> set (current_apples e) then
        (case py_list_index (apples e) next_state of Inl err \<Rightarrow> Inl err
         | Inr _ \<Rightarrow> Inr (e\<lparr>current_apples := remove1 next_state (current_apples e)\<rparr>))
      else if next_state \<in> set (current_melons e) then
        (case py_list_index (melons e) next_state of Inl err \<Rightarrow> Inl err
         | Inr _ \<Rightarrow> Inr (e\<lparr>current_melons := remove1 next_state (current_melons e)\<rparr>))
      else Inr e)"

definition reward_function :: "env \<Rightarrow> int \<Rightarrow> bool \<Rightarrow> error + (env \<times> int)" where
  "reward_function e next_state collect =
     (if collect then
        (case np_get (reward_matrix e) next_state of Inl err \<Rightarrow> Inl err
         | Inr reward \<Rightarrow>
             if next_state \<in> set (current_lemons e) \<or> next_state \<in> set (current_apples e)
                \<or> next_state \<in> set (current_melons e)
             then
               (case collect_fruit e next_state of Inl err \<Rightarrow> Inl err
                | Inr e1 \<Rightarrow>
                    (case np_set (reward_matrix e1) next_state (MOVEMENT_REWARD e1) of
                       Inl err \<Rightarrow> Inl err
                     | Inr m \<Rightarrow> Inr (e1\<lparr>reward_matrix := m\<rparr>, reward)))
             else Inr (e, reward))
      else
        (case np_get (reward_matrix e) next_state of Inl err \<Rightarrow> Inl err
         | Inr reward \<Rightarrow> Inr (e, reward)))"

text \<open>
  The two lines that \<^verbatim>\<open>look_step_ahead\<close> repeats in both of its branches: apply the
  closure of the action, then cancel the move when the target is a wall.
\<close>

definition move_or_stay :: "env \<Rightarrow> int \<Rightarrow> int \<Rightarrow> error + int" where
  "move_or_stay e state action =
     (case action_state_to_next_state e action of Inl err \<Rightarrow> Inl err
      | Inr f \<Rightarrow>
          (case f state of Inl err \<Rightarrow> Inl err
           | Inr next_state \<Rightarrow>
               (case is_wall e next_state of Inl err \<Rightarrow> Inl err
                | Inr w \<Rightarrow> Inr (if \<not> w then next_state else state))))"

text \<open>
  \<^verbatim>\<open>look_step_ahead\<close>: the result is the object after the collection and the triple
  \<open>(next_state, reward, done)\<close>; the tuple is built left to right, so the terminal test
  runs after the collection.
\<close>

definition look_step_ahead :: "env \<Rightarrow> int \<Rightarrow> int \<Rightarrow> bool \<Rightarrow> error + (env \<times> int \<times> int \<times> bool)" where
  "look_step_ahead e state action care_about_terminal =
     (case (if care_about_terminal then
              (if is_terminal e state then Inr state else move_or_stay e state action)
            else move_or_stay e state action) of
        Inl err \<Rightarrow> Inl err
      | Inr next_state \<Rightarrow>
          (case reward_function e next_state True of Inl err \<Rightarrow> Inl err
           | Inr (e1, reward) \<Rightarrow> Inr (e1, next_state, reward, is_terminal e1 next_state)))"

subsection \<open>Life cycle\<close>

text \<open>\<^verbatim>\<open>_step\<close>; the result carries the object and \<open>(current_state, reward, done)\<close>.\<close>

definition step :: "env \<Rightarrow> int \<Rightarrow> error + (env \<times> int \<times> int \<times> bool)" where
  "step e action =
     (let e1 = e\<lparr>previous_state := current_state e\<rparr> in
      case look_step_ahead e1 (current_state e1) action True of Inl err \<Rightarrow> Inl err
      | Inr (e2, next_state, reward, d) \<Rightarrow>
          (let e3 = e2\<lparr>current_state := next_state, done_flag := d\<rparr> in
           case np_get (world e3) (current_state e3) of Inl err \<Rightarrow> Inl err
           | Inr c \<Rightarrow>
               (let e4 = e3\<lparr>last_n_states := last_n_states e3 @ [c]\<rparr>;
                    e5 = (if length (last_n_states e4) > num_previous_states_to_store e4
                          then e4\<lparr>last_n_states := tl (last_n_states e4)\<rparr> else e4)
                in Inr (e5, current_state e5, reward, done_flag e5))))"

text \<open>\<^verbatim>\<open>for state in states: self.reward_matrix[state] += r\<close> and its overwriting sibling.\<close>

fun add_rewards :: "int list \<Rightarrow> int list \<Rightarrow> int \<Rightarrow> error + int list" where
  "add_rewards m [] r = Inr m"
| "add_rewards m (s # ss) r =
     (case np_get m s of Inl err \<Rightarrow> Inl err
      | Inr v \<Rightarrow> (case np_set m s (v + r) of Inl err \<Rightarrow> Inl err | Inr m1 \<Rightarrow> add_rewards m1 ss r))"

fun set_rewards :: "int list \<Rightarrow> int list \<Rightarrow> int \<Rightarrow> error + int list" where
  "set_rewards m [] r = Inr m"
| "set_rewards m (s # ss) r =
     (case np_set m s r of Inl err \<Rightarrow> Inl err | Inr m1 \<Rightarrow> set_rewards m1 ss r)"

text \<open>\<^verbatim>\<open>_generate_reward_matrix\<close>: works on the matrix as it is, it does not refill it.\<close>

definition generate_reward_matrix :: "env \<Rightarrow> error + env" where
  "generate_reward_matrix e =
     (case add_rewards (reward_matrix e) (current_apples e) (APPLE_REWARD e) of Inl err \<Rightarrow> Inl err
      | Inr m1 \<Rightarrow>
     (case add_rewards m1 (current_lemons e) (LEMON_REWARD e) of Inl err \<Rightarrow> Inl err
      | Inr m2 \<Rightarrow>
     (case add_rewards m2 (current_melons e) (MELON_REWARD e) of Inl err \<Rightarrow> Inl err
      | Inr m3 \<Rightarrow>
     (case set_rewards m3 (goal_states e) (TERMINAL_GOAL_REWARD e) of Inl err \<Rightarrow> Inl err
      | Inr m4 \<Rightarrow>
     (case set_rewards m4 (lava_states e) (LAVA_REWARD e) of Inl err \<Rightarrow> Inl err
      | Inr m5 \<Rightarrow> Inr (e\<lparr>reward_matrix := m5\<rparr>))))))"

text \<open>\<^verbatim>\<open>_reset\<close>; the result carries the object and the start state drawn.\<close>

definition reset :: "env \<Rightarrow> nat \<Rightarrow> error + (env \<times> int)" where
  "reset e rnd =
     (let e1 = e\<lparr>done_flag := False\<rparr> in
      case random_choice (initial_states e1) rnd of Inl err \<Rightarrow> Inl err
      | Inr s \<Rightarrow>
          (let e2 = e1\<lparr>previous_state := s, current_state := s, initial_state := s\<rparr>;
               e3 = e2\<lparr>last_n_states := []\<rparr>;
               e4 = e3\<lparr>current_lemons := lemons e3, current_apples := apples e3,
                       current_melons := melons e3\<rparr>
           in case generate_reward_matrix e4 of Inl err \<Rightarrow> Inl err
              | Inr e5 \<Rightarrow> Inr (e5, current_state e5)))"

subsection \<open>Construction\<close>

text \<open>
  \<^verbatim>\<open>_generate_walls\<close>: each wall is bounds-checked, marked in the grid and appended to
  the index list, in the order given.
\<close>

fun place_walls :: "env \<Rightarrow> int list \<Rightarrow> error + env" where
  "place_walls e [] = Inr e"
| "place_walls e (wall_state # ws) =
     (if wall_state < 0 \<or> wall_state > world_size e - 1 then Inl ValueError
      else
        (case np_set (wall_grid e) wall_state 1 of Inl err \<Rightarrow> Inl err
         | Inr g \<Rightarrow>
             place_walls (e\<lparr>wall_grid := g, wall_indices := wall_indices e @ [wall_state]\<rparr>) ws))"

definition generate_walls :: "env \<Rightarrow> int list option \<Rightarrow> error + env" where
  "generate_walls e walls = (case walls of None \<Rightarrow> Inr e | Some ws \<Rightarrow> place_walls e ws)"

text \<open>\<^verbatim>\<open>_check_specific_collisions\<close>, check by check in the order of the source.\<close>

definition check_specific_collisions :: "env \<Rightarrow> error + unit" where
  "check_specific_collisions e =
     (if length (current_apples e) \<noteq> len_set (current_apples e) then Inl ValueError
      else if length (current_lemons e) \<noteq> len_set (current_lemons e) then Inl ValueError
      else if length (current_melons e) \<noteq> len_set (current_melons e) then Inl ValueError
      else if length (wall_indices e) \<noteq> len_set (wall_indices e) then Inl ValueError
      else if length (initial_states e) \<noteq> len_set (initial_states e) then Inl ValueError
      else if length (goal_states e) \<noteq> len_set (goal_states e) then Inl ValueError
      else if length (lava_states e) \<noteq> len_set (lava_states e) then Inl ValueError
      else if len_inter (initial_states e) (wall_indices e) > 0 then Inl ValueError
      else if len_inter (goal_states e) (wall_indices e) > 0 then Inl ValueError
      else if len_inter (lava_states e) (wall_indices e) > 0 then Inl ValueError
      else
        (let all_fruit = current_apples e @ current_lemons e @ current_melons e in
         if len_set all_fruit \<noteq> length all_fruit \<and> length all_fruit > 0 then Inl ValueError
         else if len_inter all_fruit (wall_indices e) > 0 then Inl ValueError
         else Inr ()))"

subsection \<open>Layout loader\<close>

text \<open>
  The scanning loop of \<^verbatim>\<open>_create_custom_world_from_text\<close>.  Its state is the object (whose
  category lists grow), the local list \<^verbatim>\<open>walls_indices\<close> and the counter \<^verbatim>\<open>curr_index\<close>.
  A text row is a \<open>string\<close>; every character outside the eight legal ones raises.
\<close>

fun scan_char :: "env \<times> int list \<times> int \<Rightarrow> char \<Rightarrow> error + (env \<times> int list \<times> int)" where
  "scan_char (e, walls_indices, curr_index) ch =
     (if ch = CHR ''G'' then
        Inr (e\<lparr>goal_states := goal_states e @ [curr_index]\<rparr>, walls_indices, curr_index + 1)
      else if ch = CHR ''L'' then
        Inr (e\<lparr>lava_states := lava_states e @ [curr_index]\<rparr>, walls_indices, curr_index + 1)
      else if ch = CHR ''l'' then
        Inr (e\<lparr>lemons := lemons e @ [curr_index]\<rparr>, walls_indices, curr_index + 1)
      else if ch = CHR ''a'' then
        Inr (e\<lparr>apples := apples e @ [curr_index]\<rparr>, walls_indices, curr_index + 1)
      else if ch = CHR ''m'' then
        Inr (e\<lparr>melons := melons e @ [curr_index]\<rparr>, walls_indices, curr_index + 1)
      else if ch = CHR ''o'' then Inr (e, walls_indices, curr_index + 1)
      else if ch = CHR ''#'' then Inr (e, walls_indices @ [curr_index], curr_index + 1)
      else if ch = CHR ''x'' then
        Inr (e\<lparr>initial_states := initial_states e @ [curr_index]\<rparr>, walls_indices, curr_index + 1)
      else Inl ValueError)"

fun scan_line :: "env \<times> int list \<times> int \<Rightarrow> string \<Rightarrow> error + (env \<times> int list \<times> int)" where
  "scan_line st [] = Inr st"
| "scan_line st (ch # cs) =
     (case scan_char st ch of Inl err \<Rightarrow> Inl err | Inr st1 \<Rightarrow> scan_line st1 cs)"

fun scan_lines :: "nat \<Rightarrow> env \<times> int list \<times> int \<Rightarrow> string list \<Rightarrow> error + (env \<times> int list \<times> int)" where
  "scan_lines width_of_grid st [] = Inr st"
| "scan_lines width_of_grid st (line # ls) =
     (if length line \<noteq> width_of_grid then Inl ValueError
      else
        (case scan_line st line of Inl err \<Rightarrow> Inl err
         | Inr st1 \<Rightarrow> scan_lines width_of_grid st1 ls))"

text \<open>
  \<^verbatim>\<open>_create_custom_world_from_text\<close>; \<^verbatim>\<open>text_world_lines[0]\<close> raises on an empty input.
  The final \<^verbatim>\<open>self.reset()\<close> draws a start state with \<open>rnd\<close>.
\<close>

definition create_custom_world_from_text :: "env \<Rightarrow> string list \<Rightarrow> nat \<Rightarrow> error + env" where
  "create_custom_world_from_text e text_world_lines rnd =
     (let e1 = e\<lparr>goal_states := [], initial_states := [], lava_states := [],
                 lemons := [], apples := [], melons := []\<rparr> in
      case text_world_lines of [] \<Rightarrow> Inl IndexError
      | first_line # _ \<Rightarrow>
          (let width_of_grid = length first_line in
           case scan_lines width_of_grid (e1, [], 0) text_world_lines of Inl err \<Rightarrow> Inl err
           | Inr (e2, walls_indices, curr_index) \<Rightarrow>
               if length (initial_states e2) = 0 then Inl ValueError
               else if length (goal_states e2) = 0 then Inl ValueError
               else
                 (let e3 = e2\<lparr>y_max := int (length text_world_lines),
                             x_max := int width_of_grid\<rparr> in
                  case generate_world (x_max e3) (y_max e3) of Inl err \<Rightarrow> Inl err
                  | Inr w \<Rightarrow>
                      (let e4 = e3\<lparr>world := w\<rparr>;
                           e5 = e4\<lparr>wall_grid := replicate (length (world e4)) 0,
                                   wall_indices := []\<rparr> in
                       case generate_walls e5 (Some walls_indices) of Inl err \<Rightarrow> Inl err
                       | Inr e6 \<Rightarrow>
                           (let e7 = e6\<lparr>reward_matrix :=
                                          replicate (length (world e6)) (MOVEMENT_REWARD e6)\<rparr> in
                            case reset e7 rnd of Inl err \<Rightarrow> Inl err
                            | Inr (e8, _) \<Rightarrow> Inr e8)))))"

subsection \<open>The constructor\<close>

text \<open>
  The arguments of \<^verbatim>\<open>__init__\<close>.  \<^verbatim>\<open>initial_state\<close> is an int or a list; the list arguments
  may be \<^verbatim>\<open>None\<close>.  \<open>p_custom_world\<close> holds the rows read from \<^verbatim>\<open>custom_world_fp\<close> (after
  the removal of white space and of empty rows) and is \<open>None\<close> when no path is given;
  \<open>p_random_maze\<close> holds the rows that \<^verbatim>\<open>maze_generation.create_random_maze\<close> (not part of
  the sources at hand) returned and is \<open>None\<close> when \<^verbatim>\<open>random_maze\<close> is false.
\<close>

datatype int_or_list = IntArg int | ListArg "int list"

record params =
  p_grid_shape :: "int \<times> int"
  p_initial_state :: int_or_list
  p_goal_states :: "int list option"
  p_lava_states :: "int list option"
  p_walls :: "int list option"
  p_lemons :: "int list option"
  p_melons :: "int list option"
  p_apples :: "int list option"
  p_custom_world :: "string list option"
  p_random_maze :: "string list option"

definition list_or_empty :: "int list option \<Rightarrow> int list" where
  "list_or_empty a = (case a of None \<Rightarrow> [] | Some xs \<Rightarrow> xs)"

text \<open>
  \<^verbatim>\<open>__init__\<close>.  \<open>rnd 0\<close> is the draw of the constructor's own \<^verbatim>\<open>random.choice\<close>, \<open>rnd 1\<close>
  and \<open>rnd 2\<close> those of the resets inside the two optional layout loads.  The checks raise
  in the order of the source: world, start state draw, lava bounds, walls, reward matrix,
  the two overwriting loops with the literals \<open>10\<close> and \<open>-10\<close>, the layout loads, and the
  collision check last.
\<close>

definition init :: "rewards \<Rightarrow> params \<Rightarrow> (nat \<Rightarrow> nat) \<Rightarrow> error + env" where
  "init cfg p rnd =
     (case generate_world (fst (p_grid_shape p)) (snd (p_grid_shape p)) of Inl err \<Rightarrow> Inl err
      | Inr w \<Rightarrow>
     (let inits = (case p_initial_state p of IntArg i \<Rightarrow> [i] | ListArg l \<Rightarrow> l) in
      case random_choice inits (rnd 0) of Inl err \<Rightarrow> Inl err
      | Inr s0 \<Rightarrow>
     (let goals = (case p_goal_states p of None \<Rightarrow> [int (length w) - 1]
                   | Some g \<Rightarrow> if length g = 0 then [int (length w) - 1] else g);
          lavas = list_or_empty (p_lava_states p) in
      if list_ex (\<lambda>t_s. t_s < 0 \<or> t_s > int (length w) - 1) lavas then Inl ValueError
      else
     (let e0 = \<lparr>x_max = fst (p_grid_shape p), y_max = snd (p_grid_shape p), world = w,
                initial_states = inits, initial_state = s0, current_state = s0,
                previous_state = s0, goal_states = goals, lava_states = lavas,
                lemons = list_or_empty (p_lemons p), apples = list_or_empty (p_apples p),
                melons = list_or_empty (p_melons p),
                current_lemons = list_or_empty (p_lemons p),
                current_apples = list_or_empty (p_apples p),
                current_melons = list_or_empty (p_melons p),
                wall_indices = [], wall_grid = replicate (length w) 0,
                LEMON_REWARD = cfg_LEMON_REWARD cfg, APPLE_REWARD = cfg_APPLE_REWARD cfg,
                MELON_REWARD = cfg_MELON_REWARD cfg, LAVA_REWARD = cfg_LAVA_REWARD cfg,
                TERMINAL_GOAL_REWARD = cfg_TERMINAL_GOAL_REWARD cfg,
                MOVEMENT_REWARD = cfg_MOVEMENT_REWARD cfg,
                reward_matrix = replicate (length w) (cfg_MOVEMENT_REWARD cfg),
                num_previous_states_to_store = 500, last_n_states = [], done_flag = False\<rparr> in
      case generate_walls e0 (p_walls p) of Inl err \<Rightarrow> Inl err
      | Inr e1 \<Rightarrow>
     (case generate_reward_matrix e1 of Inl err \<Rightarrow> Inl err
      | Inr e2 \<Rightarrow>
     (case set_rewards (reward_matrix e2) (goal_states e2) 10 of Inl err \<Rightarrow> Inl err
      | Inr m1 \<Rightarrow>
     (case set_rewards m1 (lava_states e2) (- 10) of Inl err \<Rightarrow> Inl err
      | Inr m2 \<Rightarrow>
     (case (case p_custom_world p of None \<Rightarrow> Inr (e2\<lparr>reward_matrix := m2\<rparr>)
            | Some ls \<Rightarrow> create_custom_world_from_text (e2\<lparr>reward_matrix := m2\<rparr>) ls (rnd 1)) of
        Inl err \<Rightarrow> Inl err
      | Inr e4 \<Rightarrow>
     (case (case p_random_maze p of None \<Rightarrow> Inr e4
            | Some ls \<Rightarrow> create_custom_world_from_text e4 ls (rnd 2)) of
        Inl err \<Rightarrow> Inl err
      | Inr e5 \<Rightarrow>
     (case check_specific_collisions e5 of Inl err \<Rightarrow> Inl err | Inr _ \<Rightarrow> Inr e5))))))))))"

subsection \<open>Histories of calls\<close>

text \<open>
  What a caller can do with a constructed environment: \<^verbatim>\<open>step\<close>, \<^verbatim>\<open>reset\<close> and
  \<^verbatim>\<open>look_step_ahead\<close> (which the learning algorithms call on arbitrary states).  A history
  is a list of such calls; an exception ends it.
\<close>

datatype event = Step int | Reset nat | Look int int bool

fun apply_event :: "env \<Rightarrow> event \<Rightarrow> error + env" where
  "apply_event e (Step action) =
     (case step e action of Inl err \<Rightarrow> Inl err | Inr (e1, _) \<Rightarrow> Inr e1)"
| "apply_event e (Reset rnd) =
     (case reset e rnd of Inl err \<Rightarrow> Inl err | Inr (e1, _) \<Rightarrow> Inr e1)"
| "apply_event e (Look state action care) =
     (case look_step_ahead e state action care of Inl err \<Rightarrow> Inl err | Inr (e1, _) \<Rightarrow> Inr e1)"

fun run_events :: "env \<Rightarrow> event list \<Rightarrow> error + env" where
  "run_events e [] = Inr e"
| "run_events e (ev # evs) =
     (case apply_event e ev of Inl err \<Rightarrow> Inl err | Inr e1 \<Rightarrow> run_events e1 evs)"

definition run :: "rewards \<Rightarrow> params \<Rightarrow> (nat \<Rightarrow> nat) \<Rightarrow> event list \<Rightarrow> error + env" where
  "run cfg p rnd evs =
     (case init cfg p rnd of Inl err \<Rightarrow> Inl err | Inr e \<Rightarrow> run_events e evs)"

text \<open>
  Sample values for the absent \<^verbatim>\<open>config.default_rewards\<close>, used for concrete runs only:
  movement \<open>-1\<close> as the docstring of \<^verbatim>\<open>_generate_reward_matrix\<close> says, goal \<open>10\<close> and lava
  \<open>-10\<close> as the literals of the constructor, and a small positive, small negative and
  large positive fruit reward.
\<close>

definition sample_rewards :: rewards where
  "sample_rewards = \<lparr>cfg_LEMON_REWARD = - 2, cfg_APPLE_REWARD = 2, cfg_MELON_REWARD = 7,
     cfg_LAVA_REWARD = - 10, cfg_TERMINAL_GOAL_REWARD = 10, cfg_MOVEMENT_REWARD = - 1\<rparr>"

text \<open>The default call \<^verbatim>\<open>GridUniverseEnv(grid_shape=(w, h))\<close>.\<close>

definition default_params :: "int \<Rightarrow> int \<Rightarrow> params" where
  "default_params w h = \<lparr>p_grid_shape = (w, h), p_initial_state = IntArg 0,
     p_goal_states = None, p_lava_states = None, p_walls = None, p_lemons = None,
     p_melons = None, p_apples = None, p_custom_world = None, p_random_maze = None\<rparr>"

section \<open>Concrete environments\<close>

text \<open>
  The default two by two world, \<^verbatim>\<open>GridUniverseEnv(grid_shape=(2, 2))\<close> under the sample
  rewards: start at \<open>0\<close>, goal at \<open>3\<close>, no walls, lava or fruit.
\<close>

definition grid_2x2 :: env where
  "grid_2x2 = \<lparr>x_max = 2, y_max = 2, world = [(0, 0), (1, 0), (0, 1), (1, 1)],
     initial_states = [0], initial_state = 0, current_state = 0, previous_state = 0,
     goal_states = [3], lava_states = [], lemons = [], apples = [], melons = [],
     current_lemons = [], current_apples = [], current_melons = [], wall_indices = [],
     wall_grid = [0, 0, 0, 0], LEMON_REWARD = - 2, APPLE_REWARD = 2, MELON_REWARD = 7,
     LAVA_REWARD = - 10, TERMINAL_GOAL_REWARD = 10, MOVEMENT_REWARD = - 1,
     reward_matrix = [- 1, - 1, - 1, 10], num_previous_states_to_store = 500,
     last_n_states = [], done_flag = False\<rparr>"

text \<open>The same world after \<^verbatim>\<open>step(RIGHT)\<close> and \<^verbatim>\<open>step(DOWN)\<close>: the agent sits on the goal.\<close>

definition grid_2x2_at_goal :: env where
  "grid_2x2_at_goal = grid_2x2\<lparr>current_state := 3, previous_state := 1,
     last_n_states := [(1, 0), (1, 1)], done_flag := True\<rparr>"

text \<open>The two by two world with an apple on state \<open>1\<close>, as constructed.\<close>

definition grid_2x2_apple :: env where
  "grid_2x2_apple = grid_2x2\<lparr>apples := [1], current_apples := [1],
     reward_matrix := [- 1, 1, - 1, 10]\<rparr>"


text \<open>
  The world with the apple after a \<^verbatim>\<open>reset\<close> that found the apple still in place: a new
  episode begins with the entry \<open>3\<close> at the apple.
\<close>

definition grid_2x2_apple_reset :: env where
  "grid_2x2_apple_reset = grid_2x2_apple\<lparr>reward_matrix := [- 1, 3, - 1, 10]\<rparr>"

section \<open>Well-formed environments\<close>

text \<open>An index that numpy accepts for an array of length \<open>n\<close>, and the cell it denotes.\<close>

definition valid_index :: "nat \<Rightarrow> int \<Rightarrow> bool" where
  "valid_index n i = (- int n \<le> i \<and> i < int n)"

definition cell_of :: "nat \<Rightarrow> int \<Rightarrow> nat" where
  "cell_of n i = nat (i mod int n)"

text \<open>
  The layout is consistent: the world is the one generated for the current width and
  height, the wall grid and the reward matrix have one entry per state, and the wall
  grid marks exactly the listed walls.
\<close>

definition layout_ok :: "env \<Rightarrow> bool" where
  "layout_ok e =
     (generate_world (x_max e) (y_max e) = Inr (world e)
      \<and> length (wall_grid e) = length (world e)
      \<and> length (reward_matrix e) = length (world e)
      \<and> (\<forall>i < length (world e). (wall_grid e ! i = 1) = (int i \<in> set (wall_indices e))))"

text \<open>
  The current fruit lists are parts of the templates, and no state holds two fruits.
\<close>

definition fruit_ok :: "env \<Rightarrow> bool" where
  "fruit_ok e =
     (set (current_lemons e) \<subseteq> set (lemons e)
      \<and> set (current_apples e) \<subseteq> set (apples e)
      \<and> set (current_melons e) \<subseteq> set (melons e)
      \<and> distinct (current_apples e @ current_lemons e @ current_melons e)
      \<and> distinct (apples e @ lemons e @ melons e))"

definition terminal_ok :: "env \<Rightarrow> bool" where
  "terminal_ok e =
     (\<forall>g \<in> set (goal_states e) \<union> set (lava_states e). valid_index (length (world e)) g)"

definition done_ok :: "env \<Rightarrow> bool" where
  "done_ok e =
     (done_flag e \<longrightarrow>
        is_terminal e (current_state e)
        \<and> current_state e \<notin> set (current_apples e @ current_lemons e @ current_melons e))"

definition inv :: "env \<Rightarrow> bool" where
  "inv e = (layout_ok e \<and> fruit_ok e \<and> terminal_ok e \<and> done_ok e)"

text \<open>
  The state of an object right after construction or a layout load, before the
  collision check: consistent layout, current fruit equal to the templates, indexable
  terminal states, episode not done.
\<close>

definition ready :: "env \<Rightarrow> bool" where
  "ready e =
     (layout_ok e \<and> terminal_ok e \<and> \<not> done_flag e
      \<and> current_lemons e = lemons e \<and> current_apples e = apples e
      \<and> current_melons e = melons e)"

text \<open>
  What the collection does to the object, written out: the fruit on \<open>s\<close>, if any, leaves
  its current list and the entry of \<open>s\<close> in the reward matrix becomes the movement reward.
\<close>

definition collected :: "env \<Rightarrow> int \<Rightarrow> env" where
  "collected e s =
     (if s \<in> set (current_lemons e) then
        e\<lparr>current_lemons := remove1 s (current_lemons e),
          reward_matrix := (reward_matrix e)[cell_of (length (reward_matrix e)) s := MOVEMENT_REWARD e]\<rparr>
      else if s \<in> set (current_apples e) then
        e\<lparr>current_apples := remove1 s (current_apples e),
          reward_matrix := (reward_matrix e)[cell_of (length (reward_matrix e)) s := MOVEMENT_REWARD e]\<rparr>
      else if s \<in> set (current_melons e) then
        e\<lparr>current_melons := remove1 s (current_melons e),
          reward_matrix := (reward_matrix e)[cell_of (length (reward_matrix e)) s := MOVEMENT_REWARD e]\<rparr>
      else e)"

text \<open>
  The move rule in the words of the specification: rows and columns are \<open>s div width\<close>
  and \<open>s mod width\<close>; "up" is a no-op in row \<open>0\<close>, "right" in the last column, "down" in
  the last row and "left" in column \<open>0\<close>; a move onto a listed wall is cancelled.
\<close>

definition neighbour :: "env \<Rightarrow> int \<Rightarrow> int \<Rightarrow> int" where
  "neighbour e s a =
     (if a = 0 then (if s div x_max e > 0 then s - x_max e else s)
      else if a = 1 then (if s mod x_max e < x_max e - 1 then s + 1 else s)
      else if a = 2 then (if s div x_max e < y_max e - 1 then s + x_max e else s)
      else (if s mod x_max e > 0 then s - 1 else s))"

definition target :: "env \<Rightarrow> int \<Rightarrow> int \<Rightarrow> int" where
  "target e s a = (if neighbour e s a \<in> set (wall_indices e) then s else neighbour e s a)"

section \<open>Text layouts in the words of the specification\<close>





section \<open>Episodes\<close>

text \<open>
  The transitions of the episode in progress: the pair (resulting state, reward) of every
  \<^verbatim>\<open>step\<close> and \<^verbatim>\<open>look_step_ahead\<close> call, up to the next \<^verbatim>\<open>reset\<close>, where the episode
  ends.
\<close>

fun results :: "env \<Rightarrow> event list \<Rightarrow> error + (int \<times> int) list" where
  "results e [] = Inr []"
| "results e (Step action # evs) =
     (case step e action of Inl err \<Rightarrow> Inl err
      | Inr (e1, next_state, reward, d) \<Rightarrow>
          (case results e1 evs of Inl err \<Rightarrow> Inl err
           | Inr rs \<Rightarrow> Inr ((next_state, reward) # rs)))"
| "results e (Look state action care # evs) =
     (case look_step_ahead e state action care of Inl err \<Rightarrow> Inl err
      | Inr (e1, next_state, reward, d) \<Rightarrow>
          (case results e1 evs of Inl err \<Rightarrow> Inl err
           | Inr rs \<Rightarrow> Inr ((next_state, reward) # rs)))"
| "results e (Reset rnd # evs) = Inr []"

text \<open>The bonus of the fruit that the templates place on a state.\<close>

definition fruit_reward :: "env \<Rightarrow> int \<Rightarrow> int" where
  "fruit_reward e s =
     (if s \<in> set (apples e) then APPLE_REWARD e
      else if s \<in> set (lemons e) then LEMON_REWARD e
      else if s \<in> set (melons e) then MELON_REWARD e
      else 0)"

text \<open>
  The reward matrix is fresh: every fruit id is an index of the matrix and, provided no
  state holds two fruits and no fruit id is negative, every entry that no goal or lava id
  denotes is the movement reward plus the bonus of the fruit placed there.
\<close>

definition fresh_rewards :: "env \<Rightarrow> bool" where
  "fresh_rewards e =
     ((\<forall>x \<in> set (apples e @ lemons e @ melons e). valid_index (length (world e)) x)
      \<and> (distinct (apples e @ lemons e @ melons e)
          \<and> (\<forall>x \<in> set (apples e @ lemons e @ melons e). 0 \<le> x) \<longrightarrow>
          (\<forall>k < length (world e).
             k \<notin> cell_of (length (world e)) ` (set (goal_states e) \<union> set (lava_states e)) \<longrightarrow>
             reward_matrix e ! k = MOVEMENT_REWARD e + fruit_reward e (int k))))"

text \<open>
  The two conditions a fruit state passes through during an episode: its fruit is still
  there and its entry is the movement reward plus the bonus \<open>b\<close>; or no fruit is there and
  its entry is the movement reward.
\<close>

definition pending :: "env \<Rightarrow> int \<Rightarrow> int \<Rightarrow> bool" where
  "pending e s b =
     (s \<in> set (current_apples e @ current_lemons e @ current_melons e)
      \<and> reward_matrix e ! nat s = MOVEMENT_REWARD e + b)"

definition cleared :: "env \<Rightarrow> int \<Rightarrow> bool" where
  "cleared e s =
     (s \<notin> set (current_apples e @ current_lemons e @ current_melons e)
      \<and> reward_matrix e ! nat s = MOVEMENT_REWARD e)"

text \<open>The invariant together with: no fruit still present has a negative id.\<close>

definition episode_ok :: "env \<Rightarrow> bool" where
  "episode_ok e =
     (inv e \<and> (\<forall>x \<in> set (current_apples e @ current_lemons e @ current_melons e). 0 \<le> x))"

text \<open>
  What one transition does to the parts of the object that the rewards depend on: it
  lands on a state the matrix can be indexed with, returns the entry found there, and
  leaves the fruit lists and the matrix as the collection on that state leaves them.
\<close>

definition transition :: "env \<Rightarrow> env \<Rightarrow> int \<Rightarrow> int \<Rightarrow> bool" where
  "transition e e1 ns r =
     (valid_index (length (reward_matrix e)) ns
      \<and> r = reward_matrix e ! cell_of (length (reward_matrix e)) ns
      \<and> reward_matrix e1 = reward_matrix (collected e ns)
      \<and> current_apples e1 = current_apples (collected e ns)
      \<and> current_lemons e1 = current_lemons (collected e ns)
      \<and> current_melons e1 = current_melons (collected e ns)
      \<and> MOVEMENT_REWARD e1 = MOVEMENT_REWARD e)"

section \<open>Verification\<close>

subsection \<open>Concrete runs\<close>

lemma init_grid_2x2: "init sample_rewards (default_params 2 2) (\<lambda>_. 0) = Inr grid_2x2"
  by code_simp

lemma run_grid_2x2_at_goal:
  "run sample_rewards (default_params 2 2) (\<lambda>_. 0) [Step 1, Step 2] = Inr grid_2x2_at_goal"
  by code_simp

lemma run_grid_2x2: "run sample_rewards (default_params 2 2) (\<lambda>_. 0) [] = Inr grid_2x2"
  by code_simp

lemma run_grid_2x2_apple:
  "run sample_rewards ((default_params 2 2)\<lparr>p_apples := Some [1]\<rparr>) (\<lambda>_. 0) []
   = Inr grid_2x2_apple"
  by code_simp

subsection \<open>Indexing, layout and the invariant\<close>

lemma generate_world_length:
  assumes "generate_world xm ym = Inr w"
  shows "length w = nat xm * nat ym" "0 < xm" "0 < ym"
  using assms
  by (auto simp: generate_world_def length_concat comp_def sum_list_triv split: if_splits)

lemma generate_world_nth:
  assumes "generate_world xm ym = Inr w" and "i < length w"
  shows "w ! i = (int (i mod nat xm), int (i div nat xm))"
proof -
  have w: "w = map (\<lambda>(y, x). (int x, int y)) (List.product [0..<nat ym] [0..<nat xm])"
    using assms(1)
    by (auto simp: generate_world_def List.product_concat_map map_concat comp_def split: if_splits)
  have len: "i < nat ym * nat xm"
    using assms generate_world_length(1)[OF assms(1)] by (simp add: mult.commute)
  then have "i div nat xm < nat ym"
    by (simp add: less_mult_imp_div_less)
  moreover have "i mod nat xm < nat xm"
    using len by (cases "nat xm") auto
  ultimately show ?thesis
    using len by (simp add: w product_nth)
qed

lemma py_index_valid:
  "valid_index n i \<Longrightarrow> py_index n i = Inr (cell_of n i)"
  by (auto simp: valid_index_def py_index_def cell_of_def nat_eq_iff zmod_trivial_iff
      intro!: mod_pos_pos_trivial [symmetric]) (smt (verit) mod_add_self2 mod_pos_pos_trivial)

lemma py_index_Inr:
  "py_index n i = Inr k \<Longrightarrow> valid_index n i \<and> k = cell_of n i \<and> k < n"
  by (auto simp: valid_index_def py_index_def cell_of_def split: if_splits)
     (smt (verit) mod_add_self2 mod_pos_pos_trivial)

lemma py_index_invalid:
  "\<not> valid_index n i \<Longrightarrow> py_index n i = Inl IndexError"
  by (auto simp: valid_index_def py_index_def)

lemma cell_of_less: "valid_index n i \<Longrightarrow> cell_of n i < n"
  using py_index_valid py_index_Inr by blast

lemma cell_of_nonneg: "0 \<le> i \<Longrightarrow> i < int n \<Longrightarrow> cell_of n i = nat i"
  by (simp add: cell_of_def)

lemma np_get_valid: "valid_index (length xs) i \<Longrightarrow> np_get xs i = Inr (xs ! cell_of (length xs) i)"
  by (simp add: np_get_def py_index_valid)

lemma np_get_Inr: "np_get xs i = Inr v \<Longrightarrow> valid_index (length xs) i \<and> v = xs ! cell_of (length xs) i"
  by (auto simp: np_get_def split: sum.splits dest: py_index_Inr)

lemma np_set_valid: "valid_index (length xs) i \<Longrightarrow> np_set xs i v = Inr (xs[cell_of (length xs) i := v])"
  by (simp add: np_set_def py_index_valid)

lemma np_set_Inr: "np_set xs i v = Inr ys \<Longrightarrow> valid_index (length xs) i \<and> ys = xs[cell_of (length xs) i := v]"
  by (auto simp: np_set_def split: sum.splits dest: py_index_Inr)

lemma reward_function_collect:
  assumes "fruit_ok e" and "valid_index (length (reward_matrix e)) s"
  shows "reward_function e s True
         = Inr (collected e s, reward_matrix e ! cell_of (length (reward_matrix e)) s)"
  using assms
  by (auto simp: reward_function_def collect_fruit_def collected_def py_list_index_def
      np_get_valid np_set_valid fruit_ok_def)

lemma reward_function_Inr:
  assumes "reward_function e s c = Inr (e1, r)"
  shows "valid_index (length (reward_matrix e)) s"
    and "r = reward_matrix e ! cell_of (length (reward_matrix e)) s"
  using assms
  by (auto simp: reward_function_def split: if_splits sum.splits dest: np_get_Inr)

lemma collected_frame [simp]:
  "x_max (collected e s) = x_max e" "y_max (collected e s) = y_max e"
  "world (collected e s) = world e" "wall_grid (collected e s) = wall_grid e"
  "wall_indices (collected e s) = wall_indices e"
  "goal_states (collected e s) = goal_states e" "lava_states (collected e s) = lava_states e"
  "lemons (collected e s) = lemons e" "apples (collected e s) = apples e"
  "melons (collected e s) = melons e"
  "current_state (collected e s) = current_state e"
  "previous_state (collected e s) = previous_state e"
  "done_flag (collected e s) = done_flag e"
  "last_n_states (collected e s) = last_n_states e"
  "MOVEMENT_REWARD (collected e s) = MOVEMENT_REWARD e"
  "length (reward_matrix (collected e s)) = length (reward_matrix e)"
  by (simp_all add: collected_def)

lemma is_terminal_collected [simp]: "is_terminal (collected e s) x = is_terminal e x"
  by (simp add: is_terminal_def is_lava_def is_terminal_goal_def)

lemma collected_current_subset:
  "set (current_lemons (collected e s)) \<subseteq> set (current_lemons e)"
  "set (current_apples (collected e s)) \<subseteq> set (current_apples e)"
  "set (current_melons (collected e s)) \<subseteq> set (current_melons e)"
  using set_remove1_subset by (auto simp: collected_def) fastforce+

lemma collected_absent:
  assumes "distinct (current_apples e @ current_lemons e @ current_melons e)"
  shows "s \<notin> set (current_apples (collected e s) @ current_lemons (collected e s)
                  @ current_melons (collected e s))"
  using assms by (auto simp: collected_def)

lemma collected_distinct:
  assumes "distinct (current_apples e @ current_lemons e @ current_melons e)"
  shows "distinct (current_apples (collected e s) @ current_lemons (collected e s)
                  @ current_melons (collected e s))"
  using assms by (auto simp: collected_def)

lemma collected_id:
  "s \<notin> set (current_apples e @ current_lemons e @ current_melons e) \<Longrightarrow> collected e s = e"
  by (simp add: collected_def)

lemma inv_collected: "inv e \<Longrightarrow> inv (collected e s)"
  unfolding inv_def
proof (intro conjI)
  assume a: "layout_ok e \<and> fruit_ok e \<and> terminal_ok e \<and> done_ok e"
  show "layout_ok (collected e s)" using a by (simp add: layout_ok_def)
  show "terminal_ok (collected e s)" using a by (simp add: terminal_ok_def)
  show "fruit_ok (collected e s)"
    using a collected_current_subset[of e s] collected_distinct[of e s]
    by (simp add: fruit_ok_def del: distinct_append set_append) blast
  show "done_ok (collected e s)"
    using a collected_current_subset[of e s] by (auto simp: done_ok_def)
qed

lemma int_div_less_height:
  fixes w h s :: int
  assumes "0 < w" and "s < w * h"
  shows "s div w < h"
proof (rule ccontr)
  assume "\<not> s div w < h"
  then have "w * h \<le> w * (s div w)"
    using assms(1) by (intro mult_left_mono) auto
  moreover have "w * (s div w) \<le> s"
  proof -
    have "s = w * (s div w) + s mod w" by simp
    moreover have "0 \<le> s mod w" using assms(1) by simp
    ultimately show ?thesis by linarith
  qed
  ultimately show False using assms(2) by linarith
qed

lemma neighbour_range:
  assumes "0 < x_max e" and "0 < y_max e" and "0 \<le> s" and "s < x_max e * y_max e"
  shows "0 \<le> neighbour e s a \<and> neighbour e s a < x_max e * y_max e"
proof -
  let ?w = "x_max e" and ?h = "y_max e"
  have q: "s div ?w < ?h"
    using assms by (simp add: int_div_less_height)
  have r: "0 \<le> s mod ?w" "s mod ?w < ?w" using assms by simp_all
  have s: "s = ?w * (s div ?w) + s mod ?w" by simp
  have up: "0 < s div ?w \<Longrightarrow> ?w \<le> s"
    using assms by (simp add: pos_imp_zdiv_pos_iff)
  have top: "?w * (s div ?w) \<le> ?w * (?h - 1)"
    using q assms by (intro mult_left_mono) auto
  have right: "s mod ?w < ?w - 1 \<Longrightarrow> s + 1 < ?w * ?h"
  proof -
    assume "s mod ?w < ?w - 1"
    moreover have "?w * (s div ?w) \<le> ?w * ?h - ?w"
      using top by (simp add: right_diff_distrib)
    ultimately show ?thesis using s by linarith
  qed
  have down: "s div ?w < ?h - 1 \<Longrightarrow> s + ?w < ?w * ?h"
  proof -
    assume "s div ?w < ?h - 1"
    then have "?w * (s div ?w + 1) \<le> ?w * (?h - 1)"
      using assms by (intro mult_left_mono) auto
    then have "?w * (s div ?w) + ?w \<le> ?w * ?h - ?w"
      by (simp add: distrib_left right_diff_distrib)
    then show ?thesis using s r by linarith
  qed
  have left: "0 < s mod ?w \<Longrightarrow> 0 < s"
    using assms(3) by (cases "s = 0") auto
  show ?thesis
    using assms up right down left r by (auto simp: neighbour_def)
qed

lemma layout_size:
  assumes "layout_ok e"
  shows "world_size e = x_max e * y_max e" and "0 < x_max e" and "0 < y_max e"
proof -
  from assms have g: "generate_world (x_max e) (y_max e) = Inr (world e)"
    by (simp add: layout_ok_def)
  show "0 < x_max e" "0 < y_max e" using generate_world_length[OF g] by simp_all
  then show "world_size e = x_max e * y_max e"
    using generate_world_length(1)[OF g] by (simp add: world_size_def nat_mult_distrib)
qed

lemma in_range_valid:
  "0 \<le> s \<Longrightarrow> s < int n \<Longrightarrow> valid_index n s"
  by (simp add: valid_index_def)

lemma world_lookup:
  assumes "layout_ok e" and "0 \<le> s" and "s < world_size e"
  shows "np_get (world e) s = Inr (s mod x_max e, s div x_max e)"
proof -
  from assms have g: "generate_world (x_max e) (y_max e) = Inr (world e)"
    by (simp add: layout_ok_def)
  have k: "nat s < length (world e)" using assms by (simp add: world_size_def)
  have x: "0 < x_max e" using layout_size[OF assms(1)] by simp
  have "int (nat s mod nat (x_max e)) = s mod x_max e"
    using assms(2) x by (simp add: zmod_int)
  moreover have "int (nat s div nat (x_max e)) = s div x_max e"
    using assms(2) x by (simp add: zdiv_int)
  ultimately show ?thesis
    using assms generate_world_nth[OF g k]
    by (simp add: np_get_valid in_range_valid cell_of_nonneg world_size_def)
qed

lemma is_wall_eq:
  assumes "layout_ok e" and "0 \<le> s" and "s < world_size e"
  shows "is_wall e s = Inr (s \<in> set (wall_indices e))"
proof -
  have k: "nat s < length (world e)" using assms by (simp add: world_size_def)
  have l: "length (wall_grid e) = length (world e)" using assms by (simp add: layout_ok_def)
  have "(wall_grid e ! nat s = 1) = (int (nat s) \<in> set (wall_indices e))"
    using assms(1) k by (simp add: layout_ok_def)
  then show ?thesis
    using assms l by (simp add: is_wall_def np_get_valid in_range_valid cell_of_nonneg world_size_def)
qed

lemma action_rule_eq:
  assumes "layout_ok e" and "0 \<le> s" and "s < world_size e" and "a \<in> {0, 1, 2, 3}"
  shows "\<exists>f. action_state_to_next_state e a = Inr f \<and> f s = Inr (neighbour e s a)"
  using assms world_lookup[OF assms(1-3)]
  by (auto simp: action_state_to_next_state_def np_get_def py_index_def neighbour_def
      action_up_def action_right_def action_down_def action_left_def)

lemma neighbour_in_world:
  assumes "layout_ok e" and "0 \<le> s" and "s < world_size e"
  shows "0 \<le> neighbour e s a" and "neighbour e s a < world_size e"
  using neighbour_range[of e s a] layout_size[OF assms(1)] assms by simp_all

lemma move_or_stay_eq:
  assumes "layout_ok e" and "0 \<le> s" and "s < world_size e" and "a \<in> {0, 1, 2, 3}"
  shows "move_or_stay e s a = Inr (target e s a)"
proof -
  obtain f where f: "action_state_to_next_state e a = Inr f" "f s = Inr (neighbour e s a)"
    using action_rule_eq[OF assms] by blast
  have "is_wall e (neighbour e s a) = Inr (neighbour e s a \<in> set (wall_indices e))"
    using neighbour_in_world[OF assms(1-3)] assms(1) by (intro is_wall_eq) auto
  then show ?thesis using f by (simp add: move_or_stay_def target_def)
qed

lemma target_in_world:
  assumes "layout_ok e" and "0 \<le> s" and "s < world_size e"
  shows "0 \<le> target e s a" and "target e s a < world_size e"
  using neighbour_in_world[OF assms, of a] assms by (auto simp: target_def)

lemma target_not_wall:
  assumes "s \<notin> set (wall_indices e)"
  shows "target e s a \<notin> set (wall_indices e)"
  using assms by (auto simp: target_def)

lemma look_step_ahead_Inr:
  assumes "fruit_ok e" and "look_step_ahead e s a c = Inr (e1, ns, r, d)"
  shows "valid_index (length (reward_matrix e)) ns" and "e1 = collected e ns"
    and "r = reward_matrix e ! cell_of (length (reward_matrix e)) ns"
    and "d = is_terminal e ns"
proof -
  from assms(2) obtain e2 r2 where rf: "reward_function e ns True = Inr (e2, r2)"
    by (auto simp: look_step_ahead_def split: sum.splits if_splits)
  then show v: "valid_index (length (reward_matrix e)) ns"
    by (rule reward_function_Inr)
  from assms(2) rf have "e1 = e2" "r = r2" "d = is_terminal e2 ns"
    by (auto simp: look_step_ahead_def split: sum.splits if_splits)
  then show "e1 = collected e ns"
    and "r = reward_matrix e ! cell_of (length (reward_matrix e)) ns"
    and "d = is_terminal e ns"
    using rf reward_function_collect[OF assms(1) v] by auto
qed

lemma look_step_ahead_terminal:
  assumes "fruit_ok e" and "is_terminal e s" and "valid_index (length (reward_matrix e)) s"
  shows "look_step_ahead e s a True
         = Inr (collected e s, s, reward_matrix e ! cell_of (length (reward_matrix e)) s, True)"
  using assms by (simp add: look_step_ahead_def reward_function_collect)

lemma look_step_ahead_move:
  assumes "fruit_ok e" and "layout_ok e" and "0 \<le> s" and "s < world_size e"
    and "a \<in> {0, 1, 2, 3}" and "\<not> (c \<and> is_terminal e s)"
  shows "look_step_ahead e s a c
         = Inr (collected e (target e s a), target e s a,
                reward_matrix e ! nat (target e s a), is_terminal e (target e s a))"
proof -
  have m: "move_or_stay e s a = Inr (target e s a)"
    using assms by (intro move_or_stay_eq) auto
  have l: "length (reward_matrix e) = length (world e)"
    using assms(2) by (simp add: layout_ok_def)
  have t: "0 \<le> target e s a" "target e s a < int (length (reward_matrix e))"
    using target_in_world[OF assms(2-4), of a] l by (simp_all add: world_size_def)
  then have v: "valid_index (length (reward_matrix e)) (target e s a)"
    by (simp add: in_range_valid)
  show ?thesis
    using assms(6) m t reward_function_collect[OF assms(1) v]
    by (auto simp: look_step_ahead_def cell_of_nonneg)
qed

lemma inv_previous_state [simp]: "inv (e\<lparr>previous_state := x\<rparr>) = inv e"
  by (simp add: inv_def layout_ok_def fruit_ok_def terminal_ok_def done_ok_def
      is_terminal_def is_lava_def is_terminal_goal_def)

lemma inv_last_n_states [simp]: "inv (e\<lparr>last_n_states := h\<rparr>) = inv e"
  by (simp add: inv_def layout_ok_def fruit_ok_def terminal_ok_def done_ok_def
      is_terminal_def is_lava_def is_terminal_goal_def)

lemma inv_arrive:
  assumes "inv e"
    and "d \<longrightarrow> is_terminal e s
           \<and> s \<notin> set (current_apples e @ current_lemons e @ current_melons e)"
  shows "inv (e\<lparr>current_state := s, done_flag := d\<rparr>)"
  using assms
  by (simp add: inv_def layout_ok_def fruit_ok_def terminal_ok_def done_ok_def
      is_terminal_def is_lava_def is_terminal_goal_def)

lemma inv_fruit_ok: "inv e \<Longrightarrow> fruit_ok e"
  by (simp add: inv_def)

lemma inv_layout_ok: "inv e \<Longrightarrow> layout_ok e"
  by (simp add: inv_def)

lemma look_step_ahead_inv:
  assumes "inv e" and "look_step_ahead e s a c = Inr (e1, res)"
  shows "inv e1"
proof -
  obtain ns r d where "res = (ns, r, d)" by (cases res) auto
  with assms look_step_ahead_Inr(2)[OF inv_fruit_ok[OF assms(1)], of s a c e1 ns r d]
  show ?thesis by (simp add: inv_collected)
qed

lemma step_Inr:
  assumes "inv e" and "step e a = Inr (e1, ns, r, d)"
  shows "\<exists>c h. look_step_ahead (e\<lparr>previous_state := current_state e\<rparr>) (current_state e) a True
               = Inr (collected (e\<lparr>previous_state := current_state e\<rparr>) ns, ns, r, d)
             \<and> np_get (world e) ns = Inr c
             \<and> h = (if length (last_n_states e @ [c]) > num_previous_states_to_store e
                    then tl (last_n_states e @ [c]) else last_n_states e @ [c])
             \<and> e1 = (collected (e\<lparr>previous_state := current_state e\<rparr>) ns)
                      \<lparr>current_state := ns, done_flag := d, last_n_states := h\<rparr>"
proof -
  let ?e1 = "e\<lparr>previous_state := current_state e\<rparr>"
  have f: "fruit_ok ?e1" using assms(1) inv_fruit_ok[of ?e1] by simp
  from assms(2) obtain e2 ns2 r2 d2 where
    l: "look_step_ahead ?e1 (current_state e) a True = Inr (e2, ns2, r2, d2)"
    by (auto simp: step_def Let_def split: sum.splits prod.splits)
  note c = look_step_ahead_Inr[OF f l]
  from assms(2) l obtain cc where cc: "np_get (world e2) ns2 = Inr cc"
    by (auto simp: step_def Let_def split: sum.splits prod.splits)
  from assms(2) l cc have "ns = ns2" "r = r2" "d = d2"
    by (auto simp: step_def Let_def split: sum.splits prod.splits if_splits)
  moreover from assms(2) l cc have
    "e1 = e2\<lparr>current_state := ns2, done_flag := d2,
             last_n_states := (if length (last_n_states e2 @ [cc]) > num_previous_states_to_store e2
                    then tl (last_n_states e2 @ [cc]) else last_n_states e2 @ [cc])\<rparr>"
    by (auto simp: step_def Let_def split: sum.splits prod.splits if_splits)
  moreover have "num_previous_states_to_store (collected ?e1 ns2) = num_previous_states_to_store e"
    by (simp add: collected_def)
  ultimately show ?thesis using l c(2) cc by simp
qed

lemma step_inv:
  assumes "inv e" and "step e a = Inr (e1, res)"
  shows "inv e1"
proof -
  let ?e1 = "e\<lparr>previous_state := current_state e\<rparr>"
  obtain ns r d where res: "res = (ns, r, d)" by (cases res) auto
  from step_Inr[OF assms(1) assms(2)[unfolded res]] obtain c h where
    l: "look_step_ahead ?e1 (current_state e) a True = Inr (collected ?e1 ns, ns, r, d)"
    and e1: "e1 = (collected ?e1 ns)\<lparr>current_state := ns, done_flag := d, last_n_states := h\<rparr>"
    by blast
  have i: "inv ?e1" using assms(1) by simp
  have d: "d = is_terminal ?e1 ns"
    using look_step_ahead_Inr(4)[OF inv_fruit_ok[OF i] l] .
  have "inv ((collected ?e1 ns)\<lparr>current_state := ns, done_flag := d\<rparr>)"
  proof (rule inv_arrive)
    show "inv (collected ?e1 ns)" using i by (rule inv_collected)
    show "d \<longrightarrow> is_terminal (collected ?e1 ns) ns
        \<and> ns \<notin> set (current_apples (collected ?e1 ns) @ current_lemons (collected ?e1 ns)
                     @ current_melons (collected ?e1 ns))"
      using d collected_absent[of ?e1 ns] inv_fruit_ok[OF i]
      by (simp add: fruit_ok_def del: set_append)
  qed
  then show ?thesis by (simp add: e1)
qed

lemma add_rewards_length: "add_rewards m xs r = Inr m1 \<Longrightarrow> length m1 = length m"
  by (induction xs arbitrary: m) (auto split: sum.splits dest!: np_set_Inr)

lemma set_rewards_Inr:
  "set_rewards m xs r = Inr m1 \<Longrightarrow>
     length m1 = length m \<and> (\<forall>x \<in> set xs. valid_index (length m) x)"
proof (induction xs arbitrary: m)
  case Nil
  then show ?case by simp
next
  case (Cons x xs)
  from Cons.prems obtain m2 where a: "np_set m x r = Inr m2"
    and b: "set_rewards m2 xs r = Inr m1"
    by (auto split: sum.splits)
  from np_set_Inr[OF a] have "valid_index (length m) x" "length m2 = length m" by simp_all
  with Cons.IH[OF b] show ?case by simp
qed

lemma generate_reward_matrix_Inr:
  assumes "generate_reward_matrix e = Inr e1"
  shows "\<exists>m. e1 = e\<lparr>reward_matrix := m\<rparr> \<and> length m = length (reward_matrix e)
             \<and> (\<forall>g \<in> set (goal_states e) \<union> set (lava_states e).
                   valid_index (length (reward_matrix e)) g)"
proof -
  from assms obtain m1 m2 m3 m4 m5 where
    a: "add_rewards (reward_matrix e) (current_apples e) (APPLE_REWARD e) = Inr m1"
       "add_rewards m1 (current_lemons e) (LEMON_REWARD e) = Inr m2"
       "add_rewards m2 (current_melons e) (MELON_REWARD e) = Inr m3"
    and s: "set_rewards m3 (goal_states e) (TERMINAL_GOAL_REWARD e) = Inr m4"
       "set_rewards m4 (lava_states e) (LAVA_REWARD e) = Inr m5"
    and e1: "e1 = e\<lparr>reward_matrix := m5\<rparr>"
    by (auto simp: generate_reward_matrix_def split: sum.splits)
  have "length m3 = length (reward_matrix e)"
    using a by (simp add: add_rewards_length)
  with set_rewards_Inr[OF s(1)] set_rewards_Inr[OF s(2)] e1 show ?thesis by auto
qed

lemma reset_Inr:
  assumes "reset e rnd = Inr (e1, s)"
  shows "\<exists>m. e1 = e\<lparr>done_flag := False, previous_state := s, current_state := s,
                     initial_state := s, last_n_states := [], current_lemons := lemons e,
                     current_apples := apples e, current_melons := melons e,
                     reward_matrix := m\<rparr>
             \<and> length m = length (reward_matrix e)
             \<and> (\<forall>g \<in> set (goal_states e) \<union> set (lava_states e).
                   valid_index (length (reward_matrix e)) g)
             \<and> random_choice (initial_states e) rnd = Inr s"
proof -
  from assms obtain s0 e5 where c: "random_choice (initial_states e) rnd = Inr s0"
    and g: "generate_reward_matrix (e\<lparr>done_flag := False, previous_state := s0,
              current_state := s0, initial_state := s0, last_n_states := [],
              current_lemons := lemons e, current_apples := apples e,
              current_melons := melons e\<rparr>) = Inr e5"
    and r: "e1 = e5" "s = current_state e5"
    by (auto simp: reset_def Let_def split: sum.splits)
  from generate_reward_matrix_Inr[OF g] r c show ?thesis by auto
qed

lemma reset_ready:
  assumes "layout_ok e" and "reset e rnd = Inr (e1, s)"
  shows "ready e1" and "lemons e1 = lemons e" and "apples e1 = apples e"
    and "melons e1 = melons e"
proof -
  from reset_Inr[OF assms(2)] obtain m where
    e1: "e1 = e\<lparr>done_flag := False, previous_state := s, current_state := s,
                     initial_state := s, last_n_states := [], current_lemons := lemons e,
                     current_apples := apples e, current_melons := melons e,
                     reward_matrix := m\<rparr>"
    and m: "length m = length (reward_matrix e)"
    and v: "\<forall>g \<in> set (goal_states e) \<union> set (lava_states e).
                   valid_index (length (reward_matrix e)) g"
    by blast
  show "ready e1"
    using assms(1) m v by (simp add: e1 ready_def layout_ok_def terminal_ok_def)
  show "lemons e1 = lemons e" "apples e1 = apples e" "melons e1 = melons e"
    by (simp_all add: e1)
qed

lemma ready_inv:
  assumes "ready e" and "distinct (apples e @ lemons e @ melons e)"
  shows "inv e"
  using assms by (simp add: ready_def inv_def fruit_ok_def done_ok_def)

lemma reset_inv:
  assumes "inv e" and "reset e rnd = Inr (e1, s)"
  shows "inv e1"
proof -
  note r = reset_ready[OF inv_layout_ok[OF assms(1)] assms(2)]
  have "distinct (apples e1 @ lemons e1 @ melons e1)"
    using assms(1) r(2-4) by (simp add: inv_def fruit_ok_def)
  with r(1) show ?thesis by (rule ready_inv)
qed

lemma run_events_inv:
  "inv e \<Longrightarrow> run_events e evs = Inr e1 \<Longrightarrow> inv e1"
proof (induction evs arbitrary: e)
  case Nil
  then show ?case by simp
next
  case (Cons ev evs)
  from Cons.prems(2) obtain e2 where a: "apply_event e ev = Inr e2"
    and r: "run_events e2 evs = Inr e1"
    by (auto split: sum.splits)
  have "inv e2"
  proof (cases ev)
    case (Step a)
    with a Cons.prems(1) show ?thesis by (auto split: sum.splits dest: step_inv)
  next
    case (Reset rnd)
    with a Cons.prems(1) show ?thesis by (auto split: sum.splits dest: reset_inv)
  next
    case (Look s a c)
    with a Cons.prems(1) show ?thesis by (auto split: sum.splits dest: look_step_ahead_inv)
  qed
  then show ?case using r by (rule Cons.IH)
qed

lemma len_set_distinct: "(length xs = len_set xs) = distinct xs"
proof -
  have "(length (remdups xs) = length xs) = distinct xs"
    by (simp add: length_remdups_eq remdups_id_iff_distinct)
  then show ?thesis unfolding len_set_def by metis
qed

lemma len_inter_pos: "(len_inter xs ys > 0) = (set xs \<inter> set ys \<noteq> {})"
  by (auto simp: len_inter_def filter_empty_conv)

lemma check_specific_collisions_iff:
  "(check_specific_collisions e = Inr ()) =
     (distinct (current_apples e) \<and> distinct (current_lemons e) \<and> distinct (current_melons e)
      \<and> distinct (wall_indices e) \<and> distinct (initial_states e) \<and> distinct (goal_states e)
      \<and> distinct (lava_states e)
      \<and> set (initial_states e) \<inter> set (wall_indices e) = {}
      \<and> set (goal_states e) \<inter> set (wall_indices e) = {}
      \<and> set (lava_states e) \<inter> set (wall_indices e) = {}
      \<and> distinct (current_apples e @ current_lemons e @ current_melons e)
      \<and> set (current_apples e @ current_lemons e @ current_melons e) \<inter> set (wall_indices e) = {})"
proof -
  let ?all = "current_apples e @ current_lemons e @ current_melons e"
  have d: "(len_set ?all \<noteq> length ?all \<and> length ?all > 0) = (\<not> distinct ?all)"
    using len_set_distinct[of ?all] by (cases "?all = []") auto
  have n: "\<not> (0 < len_inter xs ys) \<longleftrightarrow> set xs \<inter> set ys = {}" for xs ys
    using len_inter_pos[of xs ys] by simp
  show ?thesis
    unfolding check_specific_collisions_def Let_def d
    by (simp only: len_set_distinct n if_not_P if_P split: if_splits) 
       (auto simp only: len_set_distinct len_inter_pos simp_thms if_True if_False sum.simps split: if_splits)
qed

lemma place_walls_Inr:
  assumes "place_walls e ws = Inr e1"
    and "length (wall_grid e) = length (world e)"
    and "\<forall>i < length (world e). (wall_grid e ! i = 1) = (int i \<in> set (wall_indices e))"
  shows "\<exists>g. e1 = e\<lparr>wall_grid := g, wall_indices := wall_indices e @ ws\<rparr>
             \<and> length g = length (world e)
             \<and> (\<forall>i < length (world e). (g ! i = 1) = (int i \<in> set (wall_indices e @ ws)))"
  using assms
proof (induction ws arbitrary: e)
  case Nil
  then show ?case by (intro exI[of _ "wall_grid e"]) simp
next
  case (Cons w ws)
  let ?g = "(wall_grid e)[nat w := 1]"
  let ?e = "e\<lparr>wall_grid := ?g, wall_indices := wall_indices e @ [w]\<rparr>"
  from Cons.prems(1) have w: "0 \<le> w" "w < int (length (world e))"
    by (auto simp: world_size_def split: if_splits)
  then have "np_set (wall_grid e) w 1 = Inr ?g"
    using Cons.prems(2) by (simp add: np_set_valid in_range_valid cell_of_nonneg)
  with Cons.prems(1) w have p: "place_walls ?e ws = Inr e1"
    by (simp add: world_size_def)
  have l: "length (wall_grid ?e) = length (world ?e)" using Cons.prems(2) by simp
  have c: "\<forall>i < length (world ?e). (wall_grid ?e ! i = 1) = (int i \<in> set (wall_indices ?e))"
    using Cons.prems(2,3) w by (auto simp: nth_list_update)
  from Cons.IH[OF p l c] show ?case by auto
qed

lemma generate_walls_Inr:
  assumes "generate_walls e walls = Inr e1"
    and "length (wall_grid e) = length (world e)"
    and "\<forall>i < length (world e). (wall_grid e ! i = 1) = (int i \<in> set (wall_indices e))"
  shows "\<exists>g. e1 = e\<lparr>wall_grid := g, wall_indices := wall_indices e @ list_or_empty walls\<rparr>
             \<and> length g = length (world e)
             \<and> (\<forall>i < length (world e).
                   (g ! i = 1) = (int i \<in> set (wall_indices e @ list_or_empty walls)))"
proof (cases walls)
  case None
  with assms show ?thesis
    by (intro exI[of _ "wall_grid e"]) (simp add: generate_walls_def list_or_empty_def)
next
  case (Some ws)
  with assms place_walls_Inr[of e ws e1] show ?thesis
    by (simp add: generate_walls_def list_or_empty_def)
qed

lemma create_custom_world_from_text_ready:
  assumes "create_custom_world_from_text e ls rnd = Inr e1"
  shows "ready e1"
proof -
  from assms obtain e2 walls k w e6 e8 s where
    w: "generate_world (int (length (hd ls))) (int (length ls)) = Inr w"
    and g: "generate_walls (e2\<lparr>y_max := int (length ls), x_max := int (length (hd ls)),
               world := w, wall_grid := replicate (length w) 0, wall_indices := []\<rparr>)
              (Some walls) = Inr e6"
    and r: "reset (e6\<lparr>reward_matrix := replicate (length (world e6)) (MOVEMENT_REWARD e6)\<rparr>) rnd
            = Inr (e8, s)"
    and e1: "e1 = e8"
    by (auto simp: create_custom_world_from_text_def Let_def
        split: list.splits sum.splits prod.splits if_splits)
  let ?e5 = "e2\<lparr>y_max := int (length ls), x_max := int (length (hd ls)),
               world := w, wall_grid := replicate (length w) 0, wall_indices := []\<rparr>"
  from generate_walls_Inr[OF g] obtain gr where
    e6: "e6 = ?e5\<lparr>wall_grid := gr, wall_indices := wall_indices ?e5 @ list_or_empty (Some walls)\<rparr>"
    and gr: "length gr = length w"
      "\<forall>i < length w. (gr ! i = 1) = (int i \<in> set (wall_indices ?e5 @ list_or_empty (Some walls)))"
    by auto
  have "layout_ok (e6\<lparr>reward_matrix := replicate (length (world e6)) (MOVEMENT_REWARD e6)\<rparr>)"
    using w gr by (simp add: e6 layout_ok_def)
  from reset_ready(1)[OF this r] e1 show ?thesis by simp
qed

lemma init_stages:
  assumes "init cfg p rnd = Inr e"
  shows "\<exists>e3 e4. ready e3
           \<and> (case p_custom_world p of None \<Rightarrow> Inr e3
               | Some ls \<Rightarrow> create_custom_world_from_text e3 ls (rnd 1)) = Inr e4
           \<and> (case p_random_maze p of None \<Rightarrow> Inr e4
               | Some ls \<Rightarrow> create_custom_world_from_text e4 ls (rnd 2)) = Inr e
           \<and> check_specific_collisions e = Inr ()
           \<and> (p_custom_world p = None \<and> p_random_maze p = None \<longrightarrow>
                wall_indices e = list_or_empty (p_walls p)
                \<and> initial_states e = (case p_initial_state p of IntArg i \<Rightarrow> [i] | ListArg l \<Rightarrow> l)
                \<and> lava_states e = list_or_empty (p_lava_states p)
                \<and> goal_states e = (case p_goal_states p of None \<Rightarrow> [world_size e - 1]
                      | Some g \<Rightarrow> if length g = 0 then [world_size e - 1] else g)
                \<and> current_apples e = list_or_empty (p_apples p)
                \<and> current_lemons e = list_or_empty (p_lemons p)
                \<and> current_melons e = list_or_empty (p_melons p)
                \<and> generate_world (fst (p_grid_shape p)) (snd (p_grid_shape p)) = Inr (world e))"
proof -
  let ?inits = "case p_initial_state p of IntArg i \<Rightarrow> [i] | ListArg l \<Rightarrow> l"
  from assms obtain w where w: "generate_world (fst (p_grid_shape p)) (snd (p_grid_shape p)) = Inr w"
    by (auto simp: init_def split: sum.splits)
  let ?goals = "case p_goal_states p of None \<Rightarrow> [int (length w) - 1]
                   | Some g \<Rightarrow> if length g = 0 then [int (length w) - 1] else g"
  from assms w obtain s0 where s0: "random_choice ?inits (rnd 0) = Inr s0"
    by (auto simp: init_def Let_def split: sum.splits)
  let ?e0 = "\<lparr>x_max = fst (p_grid_shape p), y_max = snd (p_grid_shape p), world = w,
                initial_states = ?inits, initial_state = s0, current_state = s0,
                previous_state = s0, goal_states = ?goals,
                lava_states = list_or_empty (p_lava_states p),
                lemons = list_or_empty (p_lemons p), apples = list_or_empty (p_apples p),
                melons = list_or_empty (p_melons p),
                current_lemons = list_or_empty (p_lemons p),
                current_apples = list_or_empty (p_apples p),
                current_melons = list_or_empty (p_melons p),
                wall_indices = [], wall_grid = replicate (length w) 0,
                LEMON_REWARD = cfg_LEMON_REWARD cfg, APPLE_REWARD = cfg_APPLE_REWARD cfg,
                MELON_REWARD = cfg_MELON_REWARD cfg, LAVA_REWARD = cfg_LAVA_REWARD cfg,
                TERMINAL_GOAL_REWARD = cfg_TERMINAL_GOAL_REWARD cfg,
                MOVEMENT_REWARD = cfg_MOVEMENT_REWARD cfg,
                reward_matrix = replicate (length w) (cfg_MOVEMENT_REWARD cfg),
                num_previous_states_to_store = 500, last_n_states = [], done_flag = False\<rparr>"
  from assms w s0 obtain e1 e2 m1 m2 e4 where
    gw: "generate_walls ?e0 (p_walls p) = Inr e1"
    and gr: "generate_reward_matrix e1 = Inr e2"
    and m1: "set_rewards (reward_matrix e2) (goal_states e2) 10 = Inr m1"
    and m2: "set_rewards m1 (lava_states e2) (- 10) = Inr m2"
    and c1: "(case p_custom_world p of None \<Rightarrow> Inr (e2\<lparr>reward_matrix := m2\<rparr>)
            | Some ls \<Rightarrow> create_custom_world_from_text (e2\<lparr>reward_matrix := m2\<rparr>) ls (rnd 1))
            = Inr e4"
    and c2: "(case p_random_maze p of None \<Rightarrow> Inr e4
            | Some ls \<Rightarrow> create_custom_world_from_text e4 ls (rnd 2)) = Inr e"
    and ck: "check_specific_collisions e = Inr ()"
    unfolding init_def Let_def
    by (simp split: sum.splits if_splits)
  from generate_walls_Inr[OF gw] obtain g where
    e1: "e1 = ?e0\<lparr>wall_grid := g, wall_indices := list_or_empty (p_walls p)\<rparr>"
    and g: "length g = length w"
      "\<forall>i < length w. (g ! i = 1) = (int i \<in> set (list_or_empty (p_walls p)))"
    by auto
  from generate_reward_matrix_Inr[OF gr] obtain m where
    e2: "e2 = e1\<lparr>reward_matrix := m\<rparr>" and m: "length m = length w"
    and v: "\<forall>g \<in> set (goal_states e1) \<union> set (lava_states e1). valid_index (length w) g"
    by (auto simp: e1)
  have lm: "length m2 = length w"
    using set_rewards_Inr[OF m1] set_rewards_Inr[OF m2] m by (simp add: e2)
  let ?e3 = "e2\<lparr>reward_matrix := m2\<rparr>"
  have r: "ready ?e3"
    using w g lm v by (simp add: ready_def layout_ok_def terminal_ok_def e2 e1)
  have "p_custom_world p = None \<and> p_random_maze p = None \<longrightarrow> e = ?e3"
    using c1 c2 by auto
  then have "p_custom_world p = None \<and> p_random_maze p = None \<longrightarrow>
                wall_indices e = list_or_empty (p_walls p)
                \<and> initial_states e = ?inits
                \<and> lava_states e = list_or_empty (p_lava_states p)
                \<and> goal_states e = (case p_goal_states p of None \<Rightarrow> [world_size e - 1]
                      | Some g \<Rightarrow> if length g = 0 then [world_size e - 1] else g)
                \<and> current_apples e = list_or_empty (p_apples p)
                \<and> current_lemons e = list_or_empty (p_lemons p)
                \<and> current_melons e = list_or_empty (p_melons p)
                \<and> generate_world (fst (p_grid_shape p)) (snd (p_grid_shape p)) = Inr (world e)"
    using w by (auto simp: e2 e1 world_size_def split: option.splits)
  with r c1 c2 ck show ?thesis by blast
qed

lemma ready_after_load:
  assumes "ready e3"
    and "(case lines of None \<Rightarrow> Inr e3
          | Some ls \<Rightarrow> create_custom_world_from_text e3 ls rnd) = Inr e4"
  shows "ready e4"
  using assms by (cases lines) (auto dest: create_custom_world_from_text_ready)

lemma init_inv:
  assumes "init cfg p rnd = Inr e"
  shows "inv e"
proof -
  from init_stages[OF assms] obtain e3 e4 where "ready e3"
    and "(case p_custom_world p of None \<Rightarrow> Inr e3
               | Some ls \<Rightarrow> create_custom_world_from_text e3 ls (rnd 1)) = Inr e4"
    and "(case p_random_maze p of None \<Rightarrow> Inr e4
               | Some ls \<Rightarrow> create_custom_world_from_text e4 ls (rnd 2)) = Inr e"
    and ck: "check_specific_collisions e = Inr ()"
    by blast
  then have r: "ready e" using ready_after_load by blast
  from ck have "distinct (current_apples e @ current_lemons e @ current_melons e)"
    unfolding check_specific_collisions_iff by blast
  with r have "distinct (apples e @ lemons e @ melons e)" by (simp add: ready_def)
  with r show ?thesis by (rule ready_inv)
qed

lemma run_inv:
  assumes "run cfg p rnd evs = Inr e"
  shows "inv e"
  using assms by (auto simp: run_def split: sum.splits dest: init_inv run_events_inv)

subsection \<open>Action values\<close>

lemma action_out_of_list:
  "action < - 4 \<or> 4 \<le> action \<Longrightarrow> move_or_stay e state action = Inl IndexError"
  by (auto simp: move_or_stay_def action_state_to_next_state_def np_get_def py_index_def)

lemma action_negative_alias:
  assumes "0 \<le> a" and "a < 4"
  shows "move_or_stay e state (a - 4) = move_or_stay e state a"
proof -
  from assms have "a = 0 \<or> a = 1 \<or> a = 2 \<or> a = 3" by arith
  then have "action_state_to_next_state e (a - 4) = action_state_to_next_state e a"
    by (auto simp: action_state_to_next_state_def np_get_def py_index_def)
  then show ?thesis by (simp add: move_or_stay_def)
qed

text \<open>
  Claim C7, as the code has it.  The action only ever indexes the Python list of the four
  move rules.  An integer action below \<open>-4\<close> or above \<open>3\<close> makes \<open>look_step_ahead\<close> raise
  \<^verbatim>\<open>IndexError\<close> whenever the move rule is consulted, that is unless the terminal
  short-circuit is taken, and makes \<open>step\<close> raise it from a current state that is not
  terminal.  The actions \<open>-4 .. -1\<close> are not refused: they behave as \<open>0 .. 3\<close>.
\<close>

theorem invalid_action_raises:
  assumes "action < - 4 \<or> 4 \<le> action"
  shows "(\<not> (care \<and> is_terminal e state) \<longrightarrow>
            look_step_ahead e state action care = Inl IndexError)
       \<and> (\<not> is_terminal e (current_state e) \<longrightarrow> step e action = Inl IndexError)
       \<and> (\<forall>a. 0 \<le> a \<and> a < 4 \<longrightarrow>
            look_step_ahead e state (a - 4) care = look_step_ahead e state a care)"
proof -
  have l: "\<not> (c \<and> is_terminal e1 st) \<Longrightarrow> look_step_ahead e1 st action c = Inl IndexError"
    for e1 st c
    using assms by (auto simp: look_step_ahead_def action_out_of_list)
  have "\<not> is_terminal e (current_state e) \<longrightarrow> step e action = Inl IndexError"
    using l[of True "e\<lparr>previous_state := current_state e\<rparr>" "current_state e"]
    by (auto simp: step_def is_terminal_def is_lava_def is_terminal_goal_def)
  moreover have "look_step_ahead e state (a - 4) care = look_step_ahead e state a care"
    if "0 \<le> a \<and> a < 4" for a
    using that by (simp add: look_step_ahead_def action_negative_alias)
  ultimately show ?thesis using l[of care e state] by blast
qed

theorem invalid_action_raises_witness:
  "((4::int) < - 4 \<or> (4::int) \<le> 4)
   \<and> \<not> (True \<and> is_terminal grid_2x2 0)
   \<and> look_step_ahead grid_2x2 0 4 True = Inl IndexError
   \<and> \<not> is_terminal grid_2x2 (current_state grid_2x2)
   \<and> step grid_2x2 4 = Inl IndexError
   \<and> look_step_ahead grid_2x2 0 (3 - 4) True = look_step_ahead grid_2x2 0 3 True"
proof -
  have h: "(4::int) < - 4 \<or> (4::int) \<le> 4" by simp
  have t: "\<not> is_terminal grid_2x2 0" "current_state grid_2x2 = 0"
    by (simp_all add: is_terminal_def is_lava_def is_terminal_goal_def grid_2x2_def)
  note r = invalid_action_raises [OF h, of True grid_2x2 0]
  from r have "look_step_ahead grid_2x2 0 (3 - 4) True = look_step_ahead grid_2x2 0 3 True"
    by (elim conjE allE [of _ 3]) simp
  with r t show ?thesis by simp
qed

text \<open>
  Against claim C7 as stated: the action \<open>-1\<close> is not one of \<open>0, 1, 2, 3\<close>, yet looking
  ahead with it from state \<open>1\<close> of the two by two world raises nothing and moves left to
  state \<open>0\<close>; and on the goal, \<open>step\<close> with the action \<open>7\<close> returns normally.
\<close>

theorem invalid_action_counterexample:
  "(- 1 :: int) \<notin> {0, 1, 2, 3}
   \<and> look_step_ahead grid_2x2 1 (- 1) True = Inr (grid_2x2, 0, - 1, False)
   \<and> (7 :: int) \<notin> {0, 1, 2, 3}
   \<and> step grid_2x2_at_goal 7
       = Inr (grid_2x2_at_goal\<lparr>previous_state := 3,
                last_n_states := [(1, 0), (1, 1), (1, 1)]\<rparr>, 3, 10, True)"
  by code_simp

subsection \<open>Reset and the reward matrix\<close>

text \<open>
  Claim C3 at a concrete input.  \<^verbatim>\<open>GridUniverseEnv(grid_shape=(2, 2), apples=[1])\<close> is
  built with the entry \<open>-1 + 2 = 1\<close> at the apple.  A \<open>reset\<close> right after, with the apple
  not collected, leaves the entry \<open>3\<close>: the apple reward was added a second time, since
  \<^verbatim>\<open>_reset\<close> calls \<^verbatim>\<open>_generate_reward_matrix\<close> on the matrix as it is.
\<close>

theorem reset_adds_fruit_reward_again:
  "init sample_rewards ((default_params 2 2)\<lparr>p_apples := Some [1]\<rparr>) (\<lambda>_. 0)
     = Inr grid_2x2_apple
   \<and> reward_matrix grid_2x2_apple = [- 1, 1, - 1, 10]
   \<and> reset grid_2x2_apple 0
     = Inr (grid_2x2_apple\<lparr>reward_matrix := [- 1, 3, - 1, 10]\<rparr>, 0)"
  by code_simp

subsection \<open>Bounds of the registered state ids\<close>

text \<open>
  Claim C6 at concrete inputs.  On the two by two world the constructor accepts the goal
  state \<open>-1\<close> and the start state \<open>7\<close>, and both stay registered; the same id \<open>-1\<close> is
  refused as a lava state and as a wall.
\<close>

theorem out_of_bounds_ids_accepted:
  "init sample_rewards ((default_params 2 2)\<lparr>p_goal_states := Some [- 1]\<rparr>) (\<lambda>_. 0)
     = Inr (grid_2x2\<lparr>goal_states := [- 1]\<rparr>)
   \<and> init sample_rewards ((default_params 2 2)\<lparr>p_initial_state := IntArg 7\<rparr>) (\<lambda>_. 0)
     = Inr (grid_2x2\<lparr>initial_states := [7], initial_state := 7, current_state := 7,
              previous_state := 7\<rparr>)
   \<and> init sample_rewards ((default_params 2 2)\<lparr>p_lava_states := Some [- 1]\<rparr>) (\<lambda>_. 0)
     = Inl ValueError
   \<and> init sample_rewards ((default_params 2 2)\<lparr>p_walls := Some [- 1]\<rparr>) (\<lambda>_. 0)
     = Inl ValueError"
  by code_simp

subsection \<open>Terminal states\<close>

text \<open>
  Claim C2.  In every environment reached from a successful construction by steps, resets
  and look-aheads, looking ahead from a goal or lava state with \<open>care_about_terminal\<close> true
  returns, for every action value, that same state with \<open>done\<close> true.
\<close>

theorem terminal_states_absorbing:
  assumes "run cfg p rnd evs = Inr e"
    and "s \<in> set (goal_states e) \<union> set (lava_states e)"
  shows "\<exists>e1 r. look_step_ahead e s a True = Inr (e1, s, r, True)"
proof -
  have i: "inv e" using assms(1) by (rule run_inv)
  then have "valid_index (length (reward_matrix e)) s"
    using assms(2) by (simp add: inv_def terminal_ok_def layout_ok_def)
  moreover have "is_terminal e s"
    using assms(2) by (auto simp: is_terminal_def is_lava_def is_terminal_goal_def)
  ultimately show ?thesis
    using look_step_ahead_terminal[OF inv_fruit_ok[OF i]] by blast
qed

theorem terminal_states_absorbing_witness:
  "run sample_rewards (default_params 2 2) (\<lambda>_. 0) [] = Inr grid_2x2
   \<and> 3 \<in> set (goal_states grid_2x2) \<union> set (lava_states grid_2x2)
   \<and> (\<exists>e1 r. look_step_ahead grid_2x2 3 2 True = Inr (e1, 3, r, True))"
proof -
  have m: "3 \<in> set (goal_states grid_2x2) \<union> set (lava_states grid_2x2)"
    by (simp add: grid_2x2_def)
  from terminal_states_absorbing [OF run_grid_2x2 m, of 2] run_grid_2x2 m
  show ?thesis by blast
qed

subsection \<open>The next state stays on the grid and off the walls\<close>

text \<open>
  Claim C1.  In every environment reached from a successful construction, for every state
  inside \<open>[0, size)\<close> that is not a wall and each of the four actions, \<open>look_step_ahead\<close>
  (with either value of \<open>care_about_terminal\<close>) returns, and its next state lies inside
  \<open>[0, size)\<close> and is not a wall.
\<close>

theorem look_step_ahead_stays_in_grid:
  assumes "run cfg p rnd evs = Inr e"
    and "0 \<le> s" and "s < world_size e" and "is_wall e s = Inr False"
    and "a \<in> {0, 1, 2, 3}"
  shows "\<exists>e1 ns r d. look_step_ahead e s a c = Inr (e1, ns, r, d)
           \<and> 0 \<le> ns \<and> ns < world_size e \<and> is_wall e ns = Inr False"
proof -
  have i: "inv e" using assms(1) by (rule run_inv)
  note f = inv_fruit_ok[OF i] and l = inv_layout_ok[OF i]
  have nw: "s \<notin> set (wall_indices e)"
    using is_wall_eq[OF l assms(2,3)] assms(4) by simp
  show ?thesis
  proof (cases "c \<and> is_terminal e s")
    case True
    have "valid_index (length (reward_matrix e)) s"
      using assms(2,3) l by (simp add: in_range_valid layout_ok_def world_size_def)
    with True look_step_ahead_terminal[OF f, of s a] assms(2-4) show ?thesis by auto
  next
    case False
    have "is_wall e (target e s a) = Inr False"
      using is_wall_eq[OF l target_in_world[OF l assms(2,3), of a]] target_not_wall[OF nw, of a]
      by simp
    with look_step_ahead_move[OF f l assms(2,3,5) False] target_in_world[OF l assms(2,3), of a]
    show ?thesis by blast
  qed
qed

theorem look_step_ahead_stays_in_grid_witness:
  "run sample_rewards (default_params 2 2) (\<lambda>_. 0) [] = Inr grid_2x2
   \<and> (0::int) \<le> 1 \<and> 1 < world_size grid_2x2 \<and> is_wall grid_2x2 1 = Inr False
   \<and> (1::int) \<in> {0, 1, 2, 3}
   \<and> (\<exists>e1 ns r d. look_step_ahead grid_2x2 1 1 True = Inr (e1, ns, r, d)
           \<and> 0 \<le> ns \<and> ns < world_size grid_2x2 \<and> is_wall grid_2x2 ns = Inr False)"
proof -
  have h: "(0::int) \<le> 1" "1 < world_size grid_2x2" "is_wall grid_2x2 1 = Inr False"
    "(1::int) \<in> {0, 1, 2, 3}"
    by (simp_all add: world_size_def is_wall_def np_get_def py_index_def grid_2x2_def)
  from look_step_ahead_stays_in_grid [OF run_grid_2x2 h, of True] run_grid_2x2 h
  show ?thesis by blast
qed

subsection \<open>Looking ahead without the terminal short-circuit\<close>

text \<open>
  Claim C10.  With \<open>care_about_terminal\<close> false, \<open>look_step_ahead\<close> from any state inside
  \<open>[0, size)\<close>, terminal or not, and any of the four actions moves by the boundary rule
  with wall cancellation (\<open>target\<close>), collects the fruit on the resulting state
  (\<open>collected\<close>), returns the reward read there before the collection, and reports as
  \<open>done\<close> whether the resulting state is a goal or lava state.  The instance below leaves
  the goal state \<open>3\<close> upwards and collects the apple on state \<open>1\<close>.
\<close>

theorem look_step_ahead_ignoring_terminal:
  assumes "run cfg p rnd evs = Inr e"
    and "0 \<le> s" and "s < world_size e" and "a \<in> {0, 1, 2, 3}"
  shows "look_step_ahead e s a False
         = Inr (collected e (target e s a), target e s a, reward_matrix e ! nat (target e s a),
                target e s a \<in> set (goal_states e) \<union> set (lava_states e))"
proof -
  have i: "inv e" using assms(1) by (rule run_inv)
  have "is_terminal e x = (x \<in> set (goal_states e) \<union> set (lava_states e))" for x
    by (auto simp: is_terminal_def is_lava_def is_terminal_goal_def)
  then show ?thesis
    using look_step_ahead_move[OF inv_fruit_ok[OF i] inv_layout_ok[OF i] assms(2-4), of False]
    by simp
qed

theorem look_step_ahead_ignoring_terminal_witness:
  "run sample_rewards ((default_params 2 2)\<lparr>p_apples := Some [1]\<rparr>) (\<lambda>_. 0) []
     = Inr grid_2x2_apple
   \<and> (0::int) \<le> 3 \<and> 3 < world_size grid_2x2_apple \<and> (0::int) \<in> {0, 1, 2, 3}
   \<and> 3 \<in> set (goal_states grid_2x2_apple)
   \<and> look_step_ahead grid_2x2_apple 3 0 False
       = Inr (grid_2x2_apple\<lparr>current_apples := [], reward_matrix := [- 1, - 1, - 1, 10]\<rparr>,
              1, 1, False)"
proof -
  have h: "(0::int) \<le> 3" "3 < world_size grid_2x2_apple" "(0::int) \<in> {0, 1, 2, 3}"
    by (simp_all add: world_size_def grid_2x2_apple_def grid_2x2_def)
  have t: "target grid_2x2_apple 3 0 = 1"
    by (simp add: target_def neighbour_def grid_2x2_apple_def grid_2x2_def)
  have c: "collected grid_2x2_apple 1
           = grid_2x2_apple\<lparr>current_apples := [], reward_matrix := [- 1, - 1, - 1, 10]\<rparr>"
    by (simp add: collected_def cell_of_def grid_2x2_apple_def grid_2x2_def)
  have v: "reward_matrix grid_2x2_apple ! nat 1 = 1"
    "3 \<in> set (goal_states grid_2x2_apple)"
    "(1 \<in> set (goal_states grid_2x2_apple) \<union> set (lava_states grid_2x2_apple)) = False"
    by (simp_all add: grid_2x2_apple_def grid_2x2_def)
  from look_step_ahead_ignoring_terminal [OF run_grid_2x2_apple h]
  show ?thesis unfolding t c v(1,3) using run_grid_2x2_apple h v(2) by simp
qed

subsection \<open>Stepping after the end of the episode\<close>

lemma update_same_done: "done_flag e = d \<Longrightarrow> e\<lparr>done_flag := d\<rparr> = e"
  by (cases e) auto

lemma step_eq:
  assumes "look_step_ahead (e\<lparr>previous_state := current_state e\<rparr>) (current_state e) a True
           = Inr (e2, ns, r, d)"
    and "np_get (world e2) ns = Inr c"
  shows "step e a
         = Inr (e2\<lparr>current_state := ns, done_flag := d,
                  last_n_states :=
                    (if length (last_n_states e2 @ [c]) > num_previous_states_to_store e2
                     then tl (last_n_states e2 @ [c]) else last_n_states e2 @ [c])\<rparr>,
                ns, r, d)"
  using assms by (simp add: step_def Let_def)

text \<open>
  Claim C8, as the code has it.  In every reachable environment whose \<open>done\<close> flag is set,
  \<open>step\<close> returns for every action value, and the current state, the flag, the reward
  matrix and the current fruit lists are what they were; but \<open>previous_state\<close> becomes the
  current state and the coordinates of the current state are appended to the history
  (the oldest entry leaving once the capacity is exceeded).
\<close>

theorem step_after_done:
  assumes "run cfg p rnd evs = Inr e" and "done_flag e"
  shows "\<exists>c r. np_get (world e) (current_state e) = Inr c
           \<and> np_get (reward_matrix e) (current_state e) = Inr r
           \<and> step e a
              = Inr (e\<lparr>previous_state := current_state e,
                       last_n_states :=
                         (if length (last_n_states e @ [c]) > num_previous_states_to_store e
                          then tl (last_n_states e @ [c]) else last_n_states e @ [c])\<rparr>,
                     current_state e, r, True)"
proof -
  let ?s = "current_state e"
  let ?e1 = "e\<lparr>previous_state := ?s\<rparr>"
  have i: "inv e" using assms(1) by (rule run_inv)
  have t: "is_terminal e ?s"
    and n: "?s \<notin> set (current_apples e @ current_lemons e @ current_melons e)"
    using i assms(2) by (simp_all add: inv_def done_ok_def)
  have v: "valid_index (length (world e)) ?s"
    using i t by (auto simp: inv_def terminal_ok_def is_terminal_def is_lava_def is_terminal_goal_def)
  have vm: "valid_index (length (reward_matrix e)) ?s"
    using v i by (simp add: inv_def layout_ok_def)
  have f: "fruit_ok ?e1" using i by (simp add: inv_def fruit_ok_def)
  have t1: "is_terminal ?e1 ?s"
    using t by (simp add: is_terminal_def is_lava_def is_terminal_goal_def)
  have c: "collected ?e1 ?s = ?e1" using n by (intro collected_id) simp
  have l: "look_step_ahead ?e1 ?s a True
           = Inr (?e1, ?s, reward_matrix e ! cell_of (length (reward_matrix e)) ?s, True)"
    using look_step_ahead_terminal[OF f t1, of a] vm c by simp
  have d: "?e1\<lparr>current_state := ?s, done_flag := True\<rparr> = ?e1"
    using assms(2) update_same_done[of ?e1 True] by simp
  have w: "np_get (world ?e1) ?s = Inr (world e ! cell_of (length (world e)) ?s)"
    using np_get_valid[OF v] by simp
  have "step e a
        = Inr (?e1\<lparr>last_n_states :=
                 (if length (last_n_states e @ [world e ! cell_of (length (world e)) ?s])
                     > num_previous_states_to_store e
                  then tl (last_n_states e @ [world e ! cell_of (length (world e)) ?s])
                  else last_n_states e @ [world e ! cell_of (length (world e)) ?s])\<rparr>,
               ?s, reward_matrix e ! cell_of (length (reward_matrix e)) ?s, True)"
    using step_eq[OF l w] d by simp
  then show ?thesis
    using np_get_valid[OF v] np_get_valid[OF vm] by simp
qed

theorem step_after_done_witness:
  "run sample_rewards (default_params 2 2) (\<lambda>_. 0) [Step 1, Step 2] = Inr grid_2x2_at_goal
   \<and> done_flag grid_2x2_at_goal
   \<and> (\<exists>c r. np_get (world grid_2x2_at_goal) (current_state grid_2x2_at_goal) = Inr c
           \<and> np_get (reward_matrix grid_2x2_at_goal) (current_state grid_2x2_at_goal) = Inr r
           \<and> step grid_2x2_at_goal 0
              = Inr (grid_2x2_at_goal\<lparr>previous_state := current_state grid_2x2_at_goal,
                       last_n_states :=
                         (if length (last_n_states grid_2x2_at_goal @ [c])
                             > num_previous_states_to_store grid_2x2_at_goal
                          then tl (last_n_states grid_2x2_at_goal @ [c])
                          else last_n_states grid_2x2_at_goal @ [c])\<rparr>,
                     current_state grid_2x2_at_goal, r, True))"
proof -
  have d: "done_flag grid_2x2_at_goal" by (simp add: grid_2x2_at_goal_def)
  from step_after_done [OF run_grid_2x2_at_goal d, of 0] run_grid_2x2_at_goal d
  show ?thesis by blast
qed

text \<open>
  Against claim C8 as stated: on the goal of the two by two world, reached by \<open>RIGHT\<close> and
  \<open>DOWN\<close>, a further \<open>step\<close> changes \<open>previous_state\<close> from \<open>1\<close> to \<open>3\<close> and lengthens the
  history from two entries to three.
\<close>

theorem step_after_done_counterexample:
  "run sample_rewards (default_params 2 2) (\<lambda>_. 0) [Step 1, Step 2] = Inr grid_2x2_at_goal
   \<and> done_flag grid_2x2_at_goal
   \<and> previous_state grid_2x2_at_goal = 1
   \<and> last_n_states grid_2x2_at_goal = [(1, 0), (1, 1)]
   \<and> step grid_2x2_at_goal 0
       = Inr (grid_2x2_at_goal\<lparr>previous_state := 3,
                last_n_states := [(1, 0), (1, 1), (1, 1)]\<rparr>, 3, 10, True)"
  by code_simp

subsection \<open>Collisions between categories\<close>




subsection \<open>The layout loader\<close>


declare scan_char.simps [simp del]





















subsection \<open>Fruit rewards during an episode\<close>

lemma add_rewards_nth:
  assumes "add_rewards m xs r = Inr m1" and "distinct xs" and "\<forall>x \<in> set xs. 0 \<le> x"
    and "k < length m"
  shows "m1 ! k = (if int k \<in> set xs then m ! k + r else m ! k)"
  using assms
proof (induction xs arbitrary: m)
  case Nil
  then show ?case by simp
next
  case (Cons x xs)
  from Cons.prems(1) obtain v m2 where g: "np_get m x = Inr v"
    and s: "np_set m x (v + r) = Inr m2" and a: "add_rewards m2 xs r = Inr m1"
    by (auto split: sum.splits)
  have x: "0 \<le> x" using Cons.prems(3) by simp
  from np_get_Inr[OF g] have vx: "valid_index (length m) x" and v: "v = m ! cell_of (length m) x"
    by simp_all
  then have c: "cell_of (length m) x = nat x" "nat x < length m"
    using x by (simp_all add: cell_of_nonneg valid_index_def)
  from np_set_Inr[OF s] have m2: "m2 = m[nat x := m ! nat x + r]"
    using v c by simp
  have ih: "m1 ! k = (if int k \<in> set xs then m2 ! k + r else m2 ! k)"
    using Cons.IH[OF a] Cons.prems(2,3,4) by (simp add: m2)
  show ?case
  proof (cases "int k = x")
    case True
    then have "int k \<notin> set xs" using Cons.prems(2) by auto
    with True ih c show ?thesis by (auto simp: m2)
  next
    case False
    then have "nat x \<noteq> k" using x by auto
    with False ih show ?thesis by (auto simp: m2)
  qed
qed

lemma set_rewards_nth:
  assumes "set_rewards m xs r = Inr m1" and "k < length m"
    and "k \<notin> cell_of (length m) ` set xs"
  shows "m1 ! k = m ! k"
  using assms
proof (induction xs arbitrary: m)
  case Nil
  then show ?case by simp
next
  case (Cons x xs)
  from Cons.prems(1) obtain m2 where s: "np_set m x r = Inr m2"
    and a: "set_rewards m2 xs r = Inr m1"
    by (auto split: sum.splits)
  from np_set_Inr[OF s] have m2: "m2 = m[cell_of (length m) x := r]" by simp
  have "m1 ! k = m2 ! k"
    using Cons.IH[OF a] Cons.prems(2,3) by (simp add: m2)
  then show ?case using Cons.prems(3) by (simp add: m2)
qed

lemma add_rewards_valid:
  "add_rewards m xs r = Inr m1 \<Longrightarrow> \<forall>x \<in> set xs. valid_index (length m) x"
proof (induction xs arbitrary: m)
  case Nil
  then show ?case by simp
next
  case (Cons x xs)
  from Cons.prems obtain v m2 where g: "np_get m x = Inr v"
    and s: "np_set m x (v + r) = Inr m2" and a: "add_rewards m2 xs r = Inr m1"
    by (auto split: sum.splits)
  from np_set_Inr[OF s] have "valid_index (length m) x" "length m2 = length m" by simp_all
  with Cons.IH[OF a] show ?case by simp
qed

lemma generate_reward_matrix_fruit_valid:
  assumes "generate_reward_matrix e = Inr e1"
  shows "\<forall>x \<in> set (current_apples e @ current_lemons e @ current_melons e).
           valid_index (length (reward_matrix e)) x"
proof -
  from assms obtain m1 m2 m3 where
    a1: "add_rewards (reward_matrix e) (current_apples e) (APPLE_REWARD e) = Inr m1"
    and a2: "add_rewards m1 (current_lemons e) (LEMON_REWARD e) = Inr m2"
    and a3: "add_rewards m2 (current_melons e) (MELON_REWARD e) = Inr m3"
    by (auto simp: generate_reward_matrix_def split: sum.splits)
  note l1 = add_rewards_length[OF a1] and l2 = add_rewards_length[OF a2]
  from add_rewards_valid[OF a1] add_rewards_valid[OF a2] add_rewards_valid[OF a3] l1 l2
  show ?thesis by auto
qed

lemma generate_reward_matrix_nth:
  assumes "generate_reward_matrix e = Inr e1"
    and "distinct (current_apples e @ current_lemons e @ current_melons e)"
    and "\<forall>x \<in> set (current_apples e @ current_lemons e @ current_melons e). 0 \<le> x"
    and "k < length (reward_matrix e)"
    and "k \<notin> cell_of (length (reward_matrix e)) ` (set (goal_states e) \<union> set (lava_states e))"
  shows "reward_matrix e1 ! k
         = reward_matrix e ! k
           + (if int k \<in> set (current_apples e) then APPLE_REWARD e
              else if int k \<in> set (current_lemons e) then LEMON_REWARD e
              else if int k \<in> set (current_melons e) then MELON_REWARD e
              else 0)"
proof -
  from assms(1) obtain m1 m2 m3 m4 m5 where
    a1: "add_rewards (reward_matrix e) (current_apples e) (APPLE_REWARD e) = Inr m1"
    and a2: "add_rewards m1 (current_lemons e) (LEMON_REWARD e) = Inr m2"
    and a3: "add_rewards m2 (current_melons e) (MELON_REWARD e) = Inr m3"
    and s1: "set_rewards m3 (goal_states e) (TERMINAL_GOAL_REWARD e) = Inr m4"
    and s2: "set_rewards m4 (lava_states e) (LAVA_REWARD e) = Inr m5"
    and e1: "e1 = e\<lparr>reward_matrix := m5\<rparr>"
    by (auto simp: generate_reward_matrix_def split: sum.splits)
  note l1 = add_rewards_length[OF a1] and l2 = add_rewards_length[OF a2]
    and l3 = add_rewards_length[OF a3]
  have l4: "length m4 = length m3" using set_rewards_Inr[OF s1] by simp
  have n1: "m1 ! k = (if int k \<in> set (current_apples e) then reward_matrix e ! k + APPLE_REWARD e
                      else reward_matrix e ! k)"
    using assms(2-4) by (intro add_rewards_nth[OF a1]) auto
  have n2: "m2 ! k = (if int k \<in> set (current_lemons e) then m1 ! k + LEMON_REWARD e else m1 ! k)"
    using assms(2-4) l1 by (intro add_rewards_nth[OF a2]) auto
  have n3: "m3 ! k = (if int k \<in> set (current_melons e) then m2 ! k + MELON_REWARD e else m2 ! k)"
    using assms(2-4) l1 l2 by (intro add_rewards_nth[OF a3]) auto
  have n4: "m4 ! k = m3 ! k"
    using assms(4,5) l1 l2 l3 by (intro set_rewards_nth[OF s1]) auto
  have n5: "m5 ! k = m4 ! k"
    using assms(4,5) l1 l2 l3 l4 by (intro set_rewards_nth[OF s2]) auto
  have d: "\<not> (int k \<in> set (current_apples e) \<and> int k \<in> set (current_lemons e))"
    "\<not> (int k \<in> set (current_apples e) \<and> int k \<in> set (current_melons e))"
    "\<not> (int k \<in> set (current_lemons e) \<and> int k \<in> set (current_melons e))"
    using assms(2) by auto
  show ?thesis
    using d by (simp add: e1 n5 n4 n3 n2 n1)
qed

lemma reset_fresh:
  assumes "reset e rnd = Inr (e1, s)"
    and "reward_matrix e = replicate (length (world e)) (MOVEMENT_REWARD e)"
  shows "fresh_rewards e1"
proof -
  from assms(1) obtain s0 where g0: "generate_reward_matrix
      (e\<lparr>done_flag := False, previous_state := s0, current_state := s0,
              initial_state := s0, last_n_states := [], current_lemons := lemons e,
              current_apples := apples e, current_melons := melons e\<rparr>) = Inr e1"
    by (auto simp: reset_def Let_def split: sum.splits)
  let ?e4 = "e\<lparr>done_flag := False, previous_state := s0, current_state := s0,
              initial_state := s0, last_n_states := [], current_lemons := lemons e,
              current_apples := apples e, current_melons := melons e\<rparr>"
  have g: "generate_reward_matrix ?e4 = Inr e1" by (rule g0)
  from generate_reward_matrix_Inr[OF g] obtain m where e1: "e1 = ?e4\<lparr>reward_matrix := m\<rparr>"
    by blast
  show ?thesis
    unfolding fresh_rewards_def
  proof (intro conjI impI allI)
    show "\<forall>x \<in> set (apples e1 @ lemons e1 @ melons e1). valid_index (length (world e1)) x"
      using generate_reward_matrix_fruit_valid[OF g] assms(2) by (simp add: e1)
  next
    fix k
    assume d: "distinct (apples e1 @ lemons e1 @ melons e1)
               \<and> (\<forall>x \<in> set (apples e1 @ lemons e1 @ melons e1). 0 \<le> x)"
      and k: "k < length (world e1)"
      and t: "k \<notin> cell_of (length (world e1)) ` (set (goal_states e1) \<union> set (lava_states e1))"
    have "reward_matrix e1 ! k
         = reward_matrix ?e4 ! k
           + (if int k \<in> set (current_apples ?e4) then APPLE_REWARD ?e4
              else if int k \<in> set (current_lemons ?e4) then LEMON_REWARD ?e4
              else if int k \<in> set (current_melons ?e4) then MELON_REWARD ?e4
              else 0)"
      using d k t assms(2) by (intro generate_reward_matrix_nth[OF g]) (simp_all add: e1)
    then show "reward_matrix e1 ! k = MOVEMENT_REWARD e1 + fruit_reward e1 (int k)"
      using k assms(2) by (simp add: e1 fruit_reward_def)
  qed
qed

lemma create_custom_world_from_text_fresh:
  assumes "create_custom_world_from_text e ls rnd = Inr e1"
  shows "fresh_rewards e1"
proof -
  from assms obtain e7 s where r: "reset e7 rnd = Inr (e1, s)"
    and m: "reward_matrix e7 = replicate (length (world e7)) (MOVEMENT_REWARD e7)"
    by (auto simp: create_custom_world_from_text_def Let_def
        split: list.splits sum.splits prod.splits if_splits)
  then show ?thesis by (rule reset_fresh)
qed

lemma init_base_fresh:
  assumes "init cfg p rnd = Inr e" and "p_custom_world p = None" and "p_random_maze p = None"
  shows "fresh_rewards e"
proof -
  let ?inits = "case p_initial_state p of IntArg i \<Rightarrow> [i] | ListArg l \<Rightarrow> l"
  from assms obtain w where w: "generate_world (fst (p_grid_shape p)) (snd (p_grid_shape p)) = Inr w"
    by (auto simp: init_def split: sum.splits)
  let ?goals = "case p_goal_states p of None \<Rightarrow> [int (length w) - 1]
                   | Some g \<Rightarrow> if length g = 0 then [int (length w) - 1] else g"
  from assms w obtain s0 where s0: "random_choice ?inits (rnd 0) = Inr s0"
    by (auto simp: init_def Let_def split: sum.splits)
  let ?e0 = "\<lparr>x_max = fst (p_grid_shape p), y_max = snd (p_grid_shape p), world = w,
                initial_states = ?inits, initial_state = s0, current_state = s0,
                previous_state = s0, goal_states = ?goals,
                lava_states = list_or_empty (p_lava_states p),
                lemons = list_or_empty (p_lemons p), apples = list_or_empty (p_apples p),
                melons = list_or_empty (p_melons p),
                current_lemons = list_or_empty (p_lemons p),
                current_apples = list_or_empty (p_apples p),
                current_melons = list_or_empty (p_melons p),
                wall_indices = [], wall_grid = replicate (length w) 0,
                LEMON_REWARD = cfg_LEMON_REWARD cfg, APPLE_REWARD = cfg_APPLE_REWARD cfg,
                MELON_REWARD = cfg_MELON_REWARD cfg, LAVA_REWARD = cfg_LAVA_REWARD cfg,
                TERMINAL_GOAL_REWARD = cfg_TERMINAL_GOAL_REWARD cfg,
                MOVEMENT_REWARD = cfg_MOVEMENT_REWARD cfg,
                reward_matrix = replicate (length w) (cfg_MOVEMENT_REWARD cfg),
                num_previous_states_to_store = 500, last_n_states = [], done_flag = False\<rparr>"
  from assms w s0 obtain e1 e2 m1 m2 where
    gw: "generate_walls ?e0 (p_walls p) = Inr e1"
    and gr: "generate_reward_matrix e1 = Inr e2"
    and m1: "set_rewards (reward_matrix e2) (goal_states e2) 10 = Inr m1"
    and m2: "set_rewards m1 (lava_states e2) (- 10) = Inr m2"
    and e: "e = e2\<lparr>reward_matrix := m2\<rparr>"
    unfolding init_def Let_def
    by (simp split: sum.splits if_splits)
  from generate_walls_Inr[OF gw] obtain g where
    e1: "e1 = ?e0\<lparr>wall_grid := g, wall_indices := list_or_empty (p_walls p)\<rparr>"
    by auto
  from generate_reward_matrix_Inr[OF gr] obtain m where
    e2: "e2 = e1\<lparr>reward_matrix := m\<rparr>" and m: "length m = length w"
    by (auto simp: e1)
  have lm1: "length m1 = length w" using set_rewards_Inr[OF m1] m by (simp add: e2)
  show ?thesis
    unfolding fresh_rewards_def
  proof (intro conjI impI allI)
    show "\<forall>x \<in> set (apples e @ lemons e @ melons e). valid_index (length (world e)) x"
      using generate_reward_matrix_fruit_valid[OF gr] by (simp add: e e2 e1)
  next
    fix k
    assume d: "distinct (apples e @ lemons e @ melons e)
               \<and> (\<forall>x \<in> set (apples e @ lemons e @ melons e). 0 \<le> x)"
      and k: "k < length (world e)"
      and t: "k \<notin> cell_of (length (world e)) ` (set (goal_states e) \<union> set (lava_states e))"
    have kw: "k < length w" using k by (simp add: e e2 e1)
    have tg: "k \<notin> cell_of (length w) ` set ?goals"
      and tl: "k \<notin> cell_of (length w) ` set (list_or_empty (p_lava_states p))"
      using t by (auto simp: e e2 e1)
    have "reward_matrix e2 ! k
         = reward_matrix e1 ! k
           + (if int k \<in> set (current_apples e1) then APPLE_REWARD e1
              else if int k \<in> set (current_lemons e1) then LEMON_REWARD e1
              else if int k \<in> set (current_melons e1) then MELON_REWARD e1
              else 0)"
      using d kw tg tl
      by (intro generate_reward_matrix_nth[OF gr]) (auto simp: e e2 e1)
    moreover have "m1 ! k = reward_matrix e2 ! k"
      using kw tg m by (intro set_rewards_nth[OF m1]) (simp_all add: e2 e1)
    moreover have "m2 ! k = m1 ! k"
      using kw tl lm1 by (intro set_rewards_nth[OF m2]) (simp_all add: e2 e1)
    ultimately show "reward_matrix e ! k = MOVEMENT_REWARD e + fruit_reward e (int k)"
      using kw by (simp add: e e2 e1 fruit_reward_def)
  qed
qed

lemma init_fresh:
  assumes "init cfg p rnd = Inr e"
  shows "fresh_rewards e"
    and "current_apples e = apples e \<and> current_lemons e = lemons e
         \<and> current_melons e = melons e"
proof -
  from init_stages[OF assms] obtain e3 e4 where r3: "ready e3"
    and c1: "(case p_custom_world p of None \<Rightarrow> Inr e3
               | Some ls \<Rightarrow> create_custom_world_from_text e3 ls (rnd 1)) = Inr e4"
    and c2: "(case p_random_maze p of None \<Rightarrow> Inr e4
               | Some ls \<Rightarrow> create_custom_world_from_text e4 ls (rnd 2)) = Inr e"
    by blast
  have "ready e" using r3 c1 c2 ready_after_load by blast
  then show "current_apples e = apples e \<and> current_lemons e = lemons e
         \<and> current_melons e = melons e"
    by (simp add: ready_def)
  show "fresh_rewards e"
  proof (cases "p_random_maze p")
    case (Some ls)
    with c2 show ?thesis by (auto dest: create_custom_world_from_text_fresh)
  next
    case None
    show ?thesis
    proof (cases "p_custom_world p")
      case (Some ls)
      with c1 c2 None show ?thesis by (auto dest: create_custom_world_from_text_fresh)
    next
      case n: None
      from assms n None show ?thesis by (rule init_base_fresh)
    qed
  qed
qed

lemma look_step_ahead_transition:
  assumes "inv e" and "look_step_ahead e s a c = Inr (e1, ns, r, d)"
  shows "transition e e1 ns r"
  using look_step_ahead_Inr[OF inv_fruit_ok[OF assms(1)] assms(2)]
  by (simp add: transition_def)

lemma step_transition:
  assumes "inv e" and "step e a = Inr (e1, ns, r, d)"
  shows "transition e e1 ns r"
proof -
  let ?e1 = "e\<lparr>previous_state := current_state e\<rparr>"
  from step_Inr[OF assms] obtain c h where
    l: "look_step_ahead ?e1 (current_state e) a True = Inr (collected ?e1 ns, ns, r, d)"
    and e1: "e1 = (collected ?e1 ns)\<lparr>current_state := ns, done_flag := d, last_n_states := h\<rparr>"
    by blast
  have i: "inv ?e1" using assms(1) by simp
  have "transition ?e1 (collected ?e1 ns) ns r"
    using i l by (rule look_step_ahead_transition)
  then show ?thesis
    by (simp add: transition_def e1 collected_def)
qed

lemma transition_episode_ok:
  assumes "episode_ok e" and "inv e1" and "transition e e1 ns r"
  shows "episode_ok e1"
  using assms collected_current_subset[of e ns]
  by (auto simp: episode_ok_def transition_def)

lemma transition_onto:
  assumes "episode_ok e" and "transition e e1 s r" and "0 \<le> s"
  shows "pending e s b \<Longrightarrow> r = MOVEMENT_REWARD e + b \<and> cleared e1 s"
    and "cleared e s \<Longrightarrow> r = MOVEMENT_REWARD e \<and> cleared e1 s"
proof -
  let ?n = "length (reward_matrix e)"
  from assms(2) have v: "valid_index ?n s" and r: "r = reward_matrix e ! cell_of ?n s"
    and m: "reward_matrix e1 = reward_matrix (collected e s)"
      "current_apples e1 = current_apples (collected e s)"
      "current_lemons e1 = current_lemons (collected e s)"
      "current_melons e1 = current_melons (collected e s)"
      "MOVEMENT_REWARD e1 = MOVEMENT_REWARD e"
    by (simp_all add: transition_def)
  from v assms(3) have c: "cell_of ?n s = nat s" "nat s < ?n"
    by (simp_all add: cell_of_nonneg valid_index_def)
  have d: "distinct (current_apples e @ current_lemons e @ current_melons e)"
    using assms(1) by (simp add: episode_ok_def inv_def fruit_ok_def)
  have a: "s \<notin> set (current_apples e1 @ current_lemons e1 @ current_melons e1)"
    using collected_absent[OF d, of s] by (simp add: m)
  show "r = MOVEMENT_REWARD e + b \<and> cleared e1 s" if p: "pending e s b"
  proof -
    from p have "s \<in> set (current_apples e @ current_lemons e @ current_melons e)"
      by (simp add: pending_def)
    then have "reward_matrix (collected e s) ! nat s = MOVEMENT_REWARD e"
      using c by (auto simp: collected_def)
    with a p r c show ?thesis by (simp add: cleared_def pending_def m del: set_append)
  qed
  show "r = MOVEMENT_REWARD e \<and> cleared e1 s" if p: "cleared e s"
  proof -
    from p have "collected e s = e" by (intro collected_id) (simp add: cleared_def)
    with a p r c show ?thesis by (simp add: cleared_def m del: set_append)
  qed
qed

lemma transition_elsewhere:
  assumes "episode_ok e" and "transition e e1 ns r" and "0 \<le> s" and "ns \<noteq> s"
  shows "pending e s b \<Longrightarrow> pending e1 s b" and "cleared e s \<Longrightarrow> cleared e1 s"
proof -
  let ?n = "length (reward_matrix e)"
  from assms(2) have v: "valid_index ?n ns"
    and m: "reward_matrix e1 = reward_matrix (collected e ns)"
      "current_apples e1 = current_apples (collected e ns)"
      "current_lemons e1 = current_lemons (collected e ns)"
      "current_melons e1 = current_melons (collected e ns)"
      "MOVEMENT_REWARD e1 = MOVEMENT_REWARD e"
    by (simp_all add: transition_def)
  have n: "ns \<in> set (current_apples e @ current_lemons e @ current_melons e) \<Longrightarrow>
           cell_of ?n ns \<noteq> nat s"
  proof -
    assume "ns \<in> set (current_apples e @ current_lemons e @ current_melons e)"
    then have "0 \<le> ns" using assms(1) by (simp add: episode_ok_def del: set_append)
    with v have "cell_of ?n ns = nat ns" by (simp add: cell_of_nonneg valid_index_def)
    with \<open>0 \<le> ns\<close> assms(3,4) show ?thesis by simp
  qed
  have e: "reward_matrix (collected e ns) ! nat s = reward_matrix e ! nat s"
    using n by (auto simp: collected_def)
  have f: "(s \<in> set (current_apples (collected e ns) @ current_lemons (collected e ns)
                     @ current_melons (collected e ns)))
           = (s \<in> set (current_apples e @ current_lemons e @ current_melons e))"
    using assms(4) by (auto simp: collected_def in_set_remove1)
  show "pending e s b \<Longrightarrow> pending e1 s b"
    using e f by (simp add: pending_def m del: set_append)
  show "cleared e s \<Longrightarrow> cleared e1 s"
    using e f by (simp add: cleared_def m del: set_append)
qed

lemma results_Step:
  assumes "results e (Step a # evs) = Inr rs"
  shows "\<exists>e1 ns r d rs1. step e a = Inr (e1, ns, r, d) \<and> results e1 evs = Inr rs1
           \<and> rs = (ns, r) # rs1"
proof (cases "step e a")
  case (Inl err)
  with assms show ?thesis by simp
next
  case (Inr x)
  obtain e1 ns r d where x: "x = (e1, ns, r, d)" by (cases x) auto
  show ?thesis
  proof (cases "results e1 evs")
    case (Inl err)
    with assms Inr x show ?thesis by simp
  next
    case r1: (Inr rs1)
    with assms Inr x have "rs = (ns, r) # rs1" by simp
    with Inr x r1 show ?thesis by blast
  qed
qed

lemma results_Look:
  assumes "results e (Look s a c # evs) = Inr rs"
  shows "\<exists>e1 ns r d rs1. look_step_ahead e s a c = Inr (e1, ns, r, d)
           \<and> results e1 evs = Inr rs1 \<and> rs = (ns, r) # rs1"
proof (cases "look_step_ahead e s a c")
  case (Inl err)
  with assms show ?thesis by simp
next
  case (Inr x)
  obtain e1 ns r d where x: "x = (e1, ns, r, d)" by (cases x) auto
  show ?thesis
  proof (cases "results e1 evs")
    case (Inl err)
    with assms Inr x show ?thesis by simp
  next
    case r1: (Inr rs1)
    with assms Inr x have "rs = (ns, r) # rs1" by simp
    with Inr x r1 show ?thesis by blast
  qed
qed

lemma results_Cons:
  assumes "episode_ok e" and "results e (ev # evs) = Inr rs" and "rs \<noteq> []"
  shows "\<exists>e1 ns r rs1. rs = (ns, r) # rs1 \<and> transition e e1 ns r \<and> episode_ok e1
           \<and> results e1 evs = Inr rs1"
proof -
  have i: "inv e" using assms(1) by (simp add: episode_ok_def)
  show ?thesis
  proof (cases ev)
    case (Step a)
    with results_Step[of e a evs rs] assms(2) obtain e1 ns r d rs1 where
      s: "step e a = Inr (e1, ns, r, d)"
      and r: "results e1 evs = Inr rs1" and rs: "rs = (ns, r) # rs1"
      by blast
    have t: "transition e e1 ns r" using i s by (rule step_transition)
    have "inv e1" using i s by (rule step_inv)
    with assms(1) have "episode_ok e1" using t by (rule transition_episode_ok)
    with t r rs show ?thesis by blast
  next
    case (Reset rnd)
    with assms(2,3) show ?thesis by simp
  next
    case (Look s a c)
    with results_Look[of e s a c evs rs] assms(2) obtain e1 ns r d rs1 where
      s: "look_step_ahead e s a c = Inr (e1, ns, r, d)"
      and r: "results e1 evs = Inr rs1" and rs: "rs = (ns, r) # rs1"
      by blast
    have t: "transition e e1 ns r" using i s by (rule look_step_ahead_transition)
    have "inv e1" using i s by (rule look_step_ahead_inv)
    with assms(1) have "episode_ok e1" using t by (rule transition_episode_ok)
    with t r rs show ?thesis by blast
  qed
qed

lemma transition_movement: "transition e e1 ns r \<Longrightarrow> MOVEMENT_REWARD e1 = MOVEMENT_REWARD e"
  by (simp add: transition_def)

lemma first_visit_Cons:
  assumes "x \<noteq> s"
  shows "(\<forall>k < Suc j. fst (((x, r) # rs) ! k) \<noteq> s) = (\<forall>k < j. fst (rs ! k) \<noteq> s)"
proof
  assume a: "\<forall>k < Suc j. fst (((x, r) # rs) ! k) \<noteq> s"
  show "\<forall>k < j. fst (rs ! k) \<noteq> s"
  proof (intro allI impI)
    fix k assume "k < j"
    then have "Suc k < Suc j" by simp
    with a have "fst (((x, r) # rs) ! Suc k) \<noteq> s" by blast
    then show "fst (rs ! k) \<noteq> s" by simp
  qed
next
  assume a: "\<forall>k < j. fst (rs ! k) \<noteq> s"
  show "\<forall>k < Suc j. fst (((x, r) # rs) ! k) \<noteq> s"
  proof (intro allI impI)
    fix k assume k: "k < Suc j"
    show "fst (((x, r) # rs) ! k) \<noteq> s"
    proof (cases k)
      case 0
      with assms show ?thesis by simp
    next
      case (Suc m)
      with k a show ?thesis by simp
    qed
  qed
qed

lemma results_cleared:
  assumes "episode_ok e" and "cleared e s" and "0 \<le> s" and "results e evs = Inr rs"
    and "i < length rs" and "fst (rs ! i) = s"
  shows "snd (rs ! i) = MOVEMENT_REWARD e"
  using assms
proof (induction evs arbitrary: e rs i)
  case Nil
  then show ?case by simp
next
  case (Cons ev evs)
  from Cons.prems(5) have "rs \<noteq> []" by auto
  from results_Cons[OF Cons.prems(1,4) this] obtain e1 ns r rs1 where
    rs: "rs = (ns, r) # rs1" and t: "transition e e1 ns r" and ok: "episode_ok e1"
    and r1: "results e1 evs = Inr rs1"
    by blast
  have c1: "cleared e1 s"
  proof (cases "ns = s")
    case True
    with t have "transition e e1 s r" by simp
    from transition_onto(2)[OF Cons.prems(1) this Cons.prems(3) Cons.prems(2)]
    show ?thesis by simp
  next
    case False
    from transition_elsewhere(2)[OF Cons.prems(1) t Cons.prems(3) False Cons.prems(2)]
    show ?thesis .
  qed
  show ?case
  proof (cases i)
    case 0
    with Cons.prems(6) have "ns = s" by (simp add: rs)
    with t have "transition e e1 s r" by simp
    from transition_onto(2)[OF Cons.prems(1) this Cons.prems(3) Cons.prems(2)] 0
    show ?thesis by (simp add: rs)
  next
    case (Suc j)
    with Cons.prems(5,6) have "j < length rs1" "fst (rs1 ! j) = s" by (simp_all add: rs)
    from Cons.IH[OF ok c1 Cons.prems(3) r1 this] transition_movement[OF t] Suc
    show ?thesis by (simp add: rs)
  qed
qed

lemma results_pending:
  assumes "episode_ok e" and "pending e s b" and "0 \<le> s" and "results e evs = Inr rs"
    and "i < length rs" and "fst (rs ! i) = s"
  shows "snd (rs ! i)
         = (if \<forall>j < i. fst (rs ! j) \<noteq> s then MOVEMENT_REWARD e + b else MOVEMENT_REWARD e)"
  using assms
proof (induction evs arbitrary: e rs i)
  case Nil
  then show ?case by simp
next
  case (Cons ev evs)
  from Cons.prems(5) have "rs \<noteq> []" by auto
  from results_Cons[OF Cons.prems(1,4) this] obtain e1 ns r rs1 where
    rs: "rs = (ns, r) # rs1" and t: "transition e e1 ns r" and ok: "episode_ok e1"
    and r1: "results e1 evs = Inr rs1"
    by blast
  note mv = transition_movement[OF t]
  show ?case
  proof (cases i)
    case 0
    with Cons.prems(6) have "ns = s" by (simp add: rs)
    with t have "transition e e1 s r" by simp
    from transition_onto(1)[OF Cons.prems(1) this Cons.prems(3) Cons.prems(2)] 0
    show ?thesis by (simp add: rs)
  next
    case (Suc j)
    with Cons.prems(5,6) have j: "j < length rs1" "fst (rs1 ! j) = s" by (simp_all add: rs)
    show ?thesis
    proof (cases "ns = s")
      case True
      with t have "transition e e1 s r" by simp
      from transition_onto(1)[OF Cons.prems(1) this Cons.prems(3) Cons.prems(2)]
      have "cleared e1 s" by simp
      from results_cleared[OF ok this Cons.prems(3) r1 j] mv
      have v: "snd (rs ! i) = MOVEMENT_REWARD e" by (simp add: rs Suc)
      have "fst (rs ! 0) = s" "0 < i" using True Suc by (simp_all add: rs)
      then have "\<not> (\<forall>k < i. fst (rs ! k) \<noteq> s)" by blast
      with v show ?thesis by (simp only: if_False)
    next
      case False
      from transition_elsewhere(1)[OF Cons.prems(1) t Cons.prems(3) False Cons.prems(2)]
      have p1: "pending e1 s b" .
      have eq: "(\<forall>k < i. fst (rs ! k) \<noteq> s) = (\<forall>k < j. fst (rs1 ! k) \<noteq> s)"
        unfolding rs Suc using False by (rule first_visit_Cons)
      have "snd (rs ! i) = snd (rs1 ! j)" by (simp add: rs Suc)
      also have "\<dots> = (if \<forall>k < j. fst (rs1 ! k) \<noteq> s then MOVEMENT_REWARD e1 + b
                       else MOVEMENT_REWARD e1)"
        by (rule Cons.IH[OF ok p1 Cons.prems(3) r1 j])
      finally show ?thesis unfolding eq mv .
    qed
  qed
qed

lemma init_grid_2x2_apple:
  "init sample_rewards ((default_params 2 2)\<lparr>p_apples := Some [1]\<rparr>) (\<lambda>_. 0)
   = Inr grid_2x2_apple"
  by code_simp

lemma results_grid_2x2_apple:
  "results grid_2x2_apple [Step 1, Step 3, Step 1] = Inr [(1, 1), (0, - 1), (1, - 1)]"
  by code_simp

text \<open>
  The episode that follows the construction.  Take a constructed environment whose goal,
  lava and fruit ids are not negative, and a fruit state that is not a goal or lava
  state.  Among the transitions of \<open>step\<close> and \<open>look_step_ahead\<close> up to the next reset, the
  first one onto that state yields the movement reward plus the bonus of its fruit, and
  every later one onto it yields exactly the movement reward.
\<close>

lemma fruit_collected_once:
  assumes "init cfg p rnd = Inr e"
    and "\<forall>x \<in> set (goal_states e @ lava_states e @ apples e @ lemons e @ melons e). 0 \<le> x"
    and "s \<in> set (apples e @ lemons e @ melons e)" and "\<not> is_terminal e s"
    and "results e evs = Inr rs" and "i < length rs" and "fst (rs ! i) = s"
  shows "snd (rs ! i)
         = (if \<forall>j < i. fst (rs ! j) \<noteq> s then MOVEMENT_REWARD e + fruit_reward e s
            else MOVEMENT_REWARD e)"
proof -
  let ?n = "length (world e)"
  have i: "inv e" using assms(1) by (rule init_inv)
  note f = init_fresh[OF assms(1)]
  have s0: "0 \<le> s" using assms(2,3) by auto
  have ok: "episode_ok e" using i f(2) assms(2) by (auto simp: episode_ok_def)
  have v: "valid_index ?n s" using f(1) assms(3) by (simp add: fresh_rewards_def)
  then have k: "nat s < ?n" using s0 by (simp add: valid_index_def)
  have d: "distinct (apples e @ lemons e @ melons e)"
    using i by (simp add: inv_def fruit_ok_def)
  have t: "nat s \<notin> cell_of ?n ` (set (goal_states e) \<union> set (lava_states e))"
  proof
    assume "nat s \<in> cell_of ?n ` (set (goal_states e) \<union> set (lava_states e))"
    then obtain g where g: "g \<in> set (goal_states e) \<union> set (lava_states e)"
      and c: "nat s = cell_of ?n g"
      by blast
    have g0: "0 \<le> g" using g assms(2) by auto
    have "valid_index ?n g" using i g by (simp add: inv_def terminal_ok_def)
    with g0 have "cell_of ?n g = nat g" by (simp add: cell_of_nonneg valid_index_def)
    with c s0 g0 have "g = s" by simp
    with g assms(4) show False
      by (auto simp: is_terminal_def is_lava_def is_terminal_goal_def)
  qed
  have "reward_matrix e ! nat s = MOVEMENT_REWARD e + fruit_reward e (int (nat s))"
    using f(1) d assms(2) k t by (auto simp: fresh_rewards_def)
  then have "pending e s (fruit_reward e s)"
    using s0 assms(3) f(2) by (simp add: pending_def)
  from results_pending[OF ok this s0 assms(5,6,7)] show ?thesis .
qed

lemma fruit_collected_once_instance:
  "init sample_rewards ((default_params 2 2)\<lparr>p_apples := Some [1]\<rparr>) (\<lambda>_. 0)
     = Inr grid_2x2_apple
   \<and> list_all (\<lambda>x. 0 \<le> x)
         (goal_states grid_2x2_apple @ lava_states grid_2x2_apple
          @ apples grid_2x2_apple @ lemons grid_2x2_apple @ melons grid_2x2_apple)
   \<and> 1 \<in> set (apples grid_2x2_apple @ lemons grid_2x2_apple @ melons grid_2x2_apple)
   \<and> \<not> is_terminal grid_2x2_apple 1
   \<and> results grid_2x2_apple [Step 1, Step 3, Step 1] = Inr [(1, 1), (0, - 1), (1, - 1)]
   \<and> snd (([(1, 1), (0, - 1), (1, - 1)] :: (int \<times> int) list) ! 0)
       = MOVEMENT_REWARD grid_2x2_apple + fruit_reward grid_2x2_apple 1
   \<and> snd (([(1, 1), (0, - 1), (1, - 1)] :: (int \<times> int) list) ! 2)
       = MOVEMENT_REWARD grid_2x2_apple"
proof -
  let ?rs = "[(1, 1), (0, - 1), (1, - 1)] :: (int \<times> int) list"
  have h: "\<forall>x \<in> set (goal_states grid_2x2_apple @ lava_states grid_2x2_apple
                  @ apples grid_2x2_apple @ lemons grid_2x2_apple @ melons grid_2x2_apple).
         0 \<le> x"
    "1 \<in> set (apples grid_2x2_apple @ lemons grid_2x2_apple @ melons grid_2x2_apple)"
    "\<not> is_terminal grid_2x2_apple 1"
    by (simp_all add: grid_2x2_apple_def grid_2x2_def is_terminal_def is_lava_def
        is_terminal_goal_def)
  have a: "(0::nat) < length ?rs" "fst (?rs ! 0) = 1" by simp_all
  have b: "(2::nat) < length ?rs" "fst (?rs ! 2) = 1" by simp_all
  have n: "\<not> (\<forall>j < (2::nat). fst (?rs ! j) \<noteq> 1)"
    by (auto intro: exI[of _ 0])
  from fruit_collected_once [OF init_grid_2x2_apple h results_grid_2x2_apple a]
  have r0: "snd (?rs ! 0) = MOVEMENT_REWARD grid_2x2_apple + fruit_reward grid_2x2_apple 1"
    by simp
  from fruit_collected_once [OF init_grid_2x2_apple h results_grid_2x2_apple b] n
  have r2: "snd (?rs ! 2) = MOVEMENT_REWARD grid_2x2_apple"
    by (simp only: if_False)
  have l: "list_all (\<lambda>x. 0 \<le> x)
         (goal_states grid_2x2_apple @ lava_states grid_2x2_apple
          @ apples grid_2x2_apple @ lemons grid_2x2_apple @ melons grid_2x2_apple)"
    using h(1) unfolding list_all_iff .
  show ?thesis
    by (intro conjI) (fact init_grid_2x2_apple l h(2,3) results_grid_2x2_apple r0 r2)+
qed

text \<open>
  Claim C4 at a concrete input.  \<^verbatim>\<open>GridUniverseEnv(grid_shape=(2, 2), apples=[1])\<close> is
  built, and \<^verbatim>\<open>reset\<close> is called before any step, so the apple on state \<open>1\<close> is still in
  place and the new episode has no reset inside.  The first transition of that episode
  onto state \<open>1\<close>, \<^verbatim>\<open>step(RIGHT)\<close>, yields the reward \<open>3\<close>, where the movement reward plus
  the apple bonus is \<open>1\<close>; the later transition onto state \<open>1\<close> yields the movement reward
  \<open>-1\<close>.  The entry \<open>3\<close> is left by \<^verbatim>\<open>_reset\<close>, which adds the bonus to the matrix as it is.
\<close>

theorem first_fruit_visit_after_reset:
  "run sample_rewards ((default_params 2 2)\<lparr>p_apples := Some [1]\<rparr>) (\<lambda>_. 0) [Reset 0]
     = Inr grid_2x2_apple_reset
   \<and> 1 \<in> set (current_apples grid_2x2_apple_reset)
   \<and> is_terminal grid_2x2_apple_reset 1 = False
   \<and> results grid_2x2_apple_reset [Step 1, Step 3, Step 1]
       = Inr [(1, 3), (0, - 1), (1, - 1)]
   \<and> MOVEMENT_REWARD grid_2x2_apple_reset + fruit_reward grid_2x2_apple_reset 1 = 1"
  by code_simp

end
